theory Spec2Isabelle
  imports Complex_Main "HOL-Library.AList" "HOL-Library.Log_Nat" "HOL-Library.Sublist"
begin

section \<open>Remote records\<close>

text \<open>
  The records the analyzer reads from the Azure DevOps REST API, with the fields
  \<^verbatim>\<open>main.js\<close> looks at. A field the code reads through \<^verbatim>\<open>?.\<close> or \<^verbatim>\<open>|| {}\<close> may be
  missing and is an option. JavaScript numbers that hold counts are \<^typ>\<open>int\<close>, and the
  lookback \<^verbatim>\<open>daysBack\<close> (the result of \<^verbatim>\<open>parseInt\<close> on a list of day counts) is an
  \<^typ>\<open>int\<close> as well.
\<close>

record project =
  project_id :: string
  project_name :: string

record repo =
  repo_id :: string
  repo_name :: string

record gitUser =
  email :: "string option"

record commit =
  author :: "gitUser option"

record identityRef =
  uniqueName :: "string option"

record pullRequest =
  createdBy :: "identityRef option"

record workItem =
  workItem_id :: int

section \<open>The remote API\<close>

text \<open>
  What \<^verbatim>\<open>await fetch(url, ...)\<close> followed by \<^verbatim>\<open>await response.json()\<close> can do:
  \<^item> \<open>NetworkError\<close>: the promise of \<^verbatim>\<open>fetch\<close> rejects (no connection, DNS, CORS);
  \<^item> \<open>Response ok statusText body\<close>: a response arrived; \<open>ok\<close> is \<^verbatim>\<open>response.ok\<close>
    (status 2xx). The body is \<open>Malformed\<close> when \<^verbatim>\<open>response.json()\<close> rejects, and
    \<open>Json v\<close> when it parses, \<open>v\<close> being the list under the key the caller reads
    (\<^verbatim>\<open>value\<close> or \<^verbatim>\<open>workItems\<close>), \<open>None\<close> when that key is missing.
\<close>

datatype 'a body = Malformed | Json "'a list option"

datatype 'a response = NetworkError | Response bool string "'a body"

text \<open>
  What an \<^verbatim>\<open>await\<close> can throw: the rejection of \<^verbatim>\<open>fetch\<close>, the rejection of
  \<^verbatim>\<open>response.json()\<close>, and the \<^verbatim>\<open>new Error(message)\<close> of \<^verbatim>\<open>getProjects\<close>.
\<close>

datatype error = FetchRejected | JsonRejected | Error string

text \<open>
  The analyzer's surroundings: \<^verbatim>\<open>this.baseUrl\<close>, the clock, and the remote end, one
  responder per endpoint, each a function of the URL requested (and, for the work-item
  query, of the body posted). \<open>sinceDateISO E daysBack\<close> is the text of
  \<^verbatim>\<open>sinceDate.toISOString()\<close> after \<^verbatim>\<open>sinceDate.setDate(sinceDate.getDate() - daysBack)\<close>.
\<close>

record env =
  baseUrl :: string
  sinceDateISO :: "int \<Rightarrow> string"
  fetchProjects :: "string \<Rightarrow> project response"
  fetchRepositories :: "string \<Rightarrow> repo response"
  fetchCommits :: "string \<Rightarrow> commit response"
  fetchPullRequests :: "string \<Rightarrow> pullRequest response"
  fetchWorkItems :: "string \<Rightarrow> string \<Rightarrow> workItem response"

text \<open>\<^verbatim>\<open>data.value || []\<close>: an array, even an empty one, is truthy.\<close>

definition orEmpty :: "'a list option \<Rightarrow> 'a list" where
  "orEmpty v = (case v of None \<Rightarrow> [] | Some xs \<Rightarrow> xs)"

text \<open>
  The three lines every sub-fetch ends with:
  \<^verbatim>\<open>if (!response.ok) return []; const data = await response.json(); return data.value || [];\<close>
\<close>

definition readList :: "'a response \<Rightarrow> error + 'a list" where
  "readList r =
     (case r of
        NetworkError \<Rightarrow> Inl FetchRejected
      | Response ok statusText b \<Rightarrow>
          if \<not> ok then Inr []
          else (case b of Malformed \<Rightarrow> Inl JsonRejected | Json v \<Rightarrow> Inr (orEmpty v)))"

subsection \<open>getProjects\<close>

definition projectsUrl :: "env \<Rightarrow> string" where
  "projectsUrl E =
     (let b = (if baseUrl E \<noteq> [] \<and> last (baseUrl E) = CHR ''/''
               then butlast (baseUrl E) else baseUrl E)
      in b @ ''/_apis/projects?api-version=6.0'')"

definition getProjects :: "env \<Rightarrow> error + project list" where
  "getProjects E =
     (case fetchProjects E (projectsUrl E) of
        NetworkError \<Rightarrow> Inl FetchRejected
      | Response ok statusText b \<Rightarrow>
          if \<not> ok then Inl (Error (''Failed to fetch projects: '' @ statusText))
          else (case b of Malformed \<Rightarrow> Inl JsonRejected | Json v \<Rightarrow> Inr (orEmpty v)))"

subsection \<open>The sub-fetches\<close>

definition repositoriesUrl :: "env \<Rightarrow> string \<Rightarrow> string" where
  "repositoriesUrl E projectId =
     baseUrl E @ ''/'' @ projectId @ ''/_apis/git/repositories?api-version=6.0''"

definition getRepositories :: "env \<Rightarrow> string \<Rightarrow> error + repo list" where
  "getRepositories E projectId = readList (fetchRepositories E (repositoriesUrl E projectId))"

definition commitsUrl :: "env \<Rightarrow> string \<Rightarrow> string \<Rightarrow> int \<Rightarrow> string" where
  "commitsUrl E projectId repoId daysBack =
     baseUrl E @ ''/'' @ projectId @ ''/_apis/git/repositories/'' @ repoId
       @ ''/commits?api-version=6.0&$top=1000&searchCriteria.fromDate=''
       @ sinceDateISO E daysBack"

text \<open>\<^verbatim>\<open>getCommits\<close> takes \<^verbatim>\<open>userEmail\<close> and does not use it.\<close>

definition getCommits ::
  "env \<Rightarrow> string \<Rightarrow> string \<Rightarrow> string option \<Rightarrow> int \<Rightarrow> error + commit list" where
  "getCommits E projectId repoId userEmail daysBack =
     readList (fetchCommits E (commitsUrl E projectId repoId daysBack))"

definition pullRequestsUrl :: "env \<Rightarrow> string \<Rightarrow> string \<Rightarrow> string" where
  "pullRequestsUrl E projectId repoId =
     baseUrl E @ ''/'' @ projectId @ ''/_apis/git/repositories/'' @ repoId
       @ ''/pullrequests?api-version=6.0&searchCriteria.status=all&$top=1000''"

text \<open>\<^verbatim>\<open>getPullRequests\<close> takes \<^verbatim>\<open>daysBack\<close> and does not use it.\<close>

definition getPullRequests ::
  "env \<Rightarrow> string \<Rightarrow> string \<Rightarrow> int \<Rightarrow> error + pullRequest list" where
  "getPullRequests E projectId repoId daysBack =
     readList (fetchPullRequests E (pullRequestsUrl E projectId repoId))"

definition workItemsUrl :: "env \<Rightarrow> string \<Rightarrow> string" where
  "workItemsUrl E projectId = baseUrl E @ ''/'' @ projectId @ ''/_apis/wit/wiql?api-version=6.0''"

text \<open>
  The WIQL text posted; \<^verbatim>\<open>sinceDate.toISOString().split('T')[0]\<close> is the date part. The
  line breaks and indentation of the template literal are written as single spaces.
\<close>

definition wiqlQuery :: "env \<Rightarrow> string \<Rightarrow> int \<Rightarrow> string" where
  "wiqlQuery E userEmail daysBack =
     ''SELECT [System.Id], [System.Title], [System.State], [System.WorkItemType], [System.CreatedDate]''
       @ '' FROM WorkItems WHERE [System.AssignedTo] = '' @ [CHR 0x27] @ userEmail @ [CHR 0x27]
       @ '' AND [System.CreatedDate] >= '' @ [CHR 0x27]
       @ takeWhile (\<lambda>c. c \<noteq> CHR ''T'') (sinceDateISO E daysBack) @ [CHR 0x27]
       @ '' ORDER BY [System.CreatedDate] DESC''"

definition getWorkItems :: "env \<Rightarrow> string \<Rightarrow> string \<Rightarrow> int \<Rightarrow> error + workItem list" where
  "getWorkItems E projectId userEmail daysBack =
     readList (fetchWorkItems E (workItemsUrl E projectId) (wiqlQuery E userEmail daysBack))"

section \<open>The user filter\<close>

text \<open>
  \<^verbatim>\<open>String.prototype.toLowerCase\<close> on the ASCII letters; a \<^typ>\<open>char\<close> is a byte, and bytes
  outside \<open>A\<close>..\<open>Z\<close> are left as they are. The function of the language also lowers the
  cased letters outside ASCII (an accented capital, a Greek or Cyrillic capital), which a
  string of bytes does not hold: for two identities that differ only in the case of such a
  letter, the filter of the code keeps a commit that the filter below drops. The identities
  here are ASCII addresses; the properties proved of the filter are stated with this
  function on both sides of the comparison, and use of it only that it keeps the length of
  a string.
\<close>

definition toLowerChar :: "char \<Rightarrow> char" where
  "toLowerChar c =
     (let n = (of_char c :: nat) in if 65 \<le> n \<and> n \<le> 90 then char_of (n + 32) else c)"

definition toLowerCase :: "string \<Rightarrow> string" where
  "toLowerCase s = map toLowerChar s"

text \<open>
  \<^verbatim>\<open>if (!userEmail) return commits;\<close>: \<^verbatim>\<open>null\<close> and the empty string are falsy. In the
  callback, \<^verbatim>\<open>commit.author || {}\<close> has no email when the author is missing, and
  \<^verbatim>\<open>author.email && ...\<close> is falsy for a missing or empty email.
\<close>

definition filterCommitsByUser :: "commit list \<Rightarrow> string option \<Rightarrow> commit list" where
  "filterCommitsByUser commits userEmail =
     (case userEmail of
        None \<Rightarrow> commits
      | Some u \<Rightarrow>
          if u = [] then commits
          else filter (\<lambda>c. case author c of
                              None \<Rightarrow> False
                            | Some a \<Rightarrow> (case email a of
                                           None \<Rightarrow> False
                                         | Some e \<Rightarrow> e \<noteq> [] \<and> toLowerCase e = toLowerCase u))
                 commits)"

text \<open>The author email of a commit, when it has one.\<close>

definition authorEmail :: "commit \<Rightarrow> string option" where
  "authorEmail c = (case author c of None \<Rightarrow> None | Some a \<Rightarrow> email a)"

section \<open>Per-project analysis\<close>

record repoStat =
  rs_commits :: int
  rs_prs :: int
  rs_projectId :: string
  rs_repoId :: string

text \<open>
  \<^verbatim>\<open>projectMetrics\<close>. The object \<^verbatim>\<open>repoStats\<close> is an association list in insertion
  order: \<open>AList.update\<close> overwrites the value of a key already there and appends a new
  key, as an assignment to a property does.
\<close>

record projectMetrics =
  pm_commits :: int
  pm_prs :: int
  pm_workItems :: int
  pm_repoStats :: "(string \<times> repoStat) list"

definition emptyProjectMetrics :: projectMetrics where
  "emptyProjectMetrics = \<lparr>pm_commits = 0, pm_prs = 0, pm_workItems = 0, pm_repoStats = []\<rparr>"

text \<open>
  The \<^verbatim>\<open>for (const repo of repos)\<close> loop of \<^verbatim>\<open>analyzeProject\<close>. It runs inside the
  \<^verbatim>\<open>try\<close>, and \<^verbatim>\<open>projectMetrics\<close> is declared outside of it: when an \<^verbatim>\<open>await\<close>
  throws, the loop stops and the object keeps what was written so far, so the loop returns
  the metrics together with the error, if any.
\<close>

fun analyzeRepos ::
  "env \<Rightarrow> project \<Rightarrow> int \<Rightarrow> string option \<Rightarrow> repo list \<Rightarrow> projectMetrics
     \<Rightarrow> projectMetrics \<times> error option" where
  "analyzeRepos E p daysBack userEmail [] pm = (pm, None)"
| "analyzeRepos E p daysBack userEmail (r # rs) pm =
     (case getCommits E (project_id p) (repo_id r) userEmail daysBack of
        Inl e \<Rightarrow> (pm, Some e)
      | Inr commits \<Rightarrow>
          (let commitCount = int (length (filterCommitsByUser commits userEmail)) in
           case getPullRequests E (project_id p) (repo_id r) daysBack of
             Inl e \<Rightarrow> (pm, Some e)
           | Inr prs \<Rightarrow>
               (let prCount = int (length prs);
                    repoKey = project_name p @ ''/'' @ repo_name r
                in analyzeRepos E p daysBack userEmail rs
                     (pm\<lparr>pm_commits := pm_commits pm + commitCount,
                         pm_prs := pm_prs pm + prCount,
                         pm_repoStats :=
                           AList.update repoKey
                             \<lparr>rs_commits = commitCount, rs_prs = prCount,
                              rs_projectId = project_id p, rs_repoId = repo_id r\<rparr>
                             (pm_repoStats pm)\<rparr>))))"

text \<open>
  \<^verbatim>\<open>analyzeProject\<close>: the \<^verbatim>\<open>catch\<close> only logs a warning, and the function returns
  \<^verbatim>\<open>projectMetrics\<close> as it stands. Work items are fetched only for a truthy
  \<^verbatim>\<open>userEmail\<close>.
\<close>

definition analyzeProject :: "env \<Rightarrow> project \<Rightarrow> int \<Rightarrow> string option \<Rightarrow> projectMetrics" where
  "analyzeProject E p daysBack userEmail =
     (case getRepositories E (project_id p) of
        Inl e \<Rightarrow> emptyProjectMetrics
      | Inr repos \<Rightarrow>
          (case analyzeRepos E p daysBack userEmail repos emptyProjectMetrics of
             (pm, Some e) \<Rightarrow> pm
           | (pm, None) \<Rightarrow>
               (case userEmail of
                  None \<Rightarrow> pm
                | Some u \<Rightarrow>
                    if u = [] then pm
                    else (case getWorkItems E (project_id p) u daysBack of
                            Inl e \<Rightarrow> pm
                          | Inr workItems \<Rightarrow> pm\<lparr>pm_workItems := int (length workItems)\<rparr>))))"

text \<open>A repository at which the loop stops: its commit fetch or its pull-request fetch throws.\<close>

definition repoFails :: "env \<Rightarrow> project \<Rightarrow> int \<Rightarrow> string option \<Rightarrow> repo \<Rightarrow> bool" where
  "repoFails E p daysBack userEmail r =
     (isl (getCommits E (project_id p) (repo_id r) userEmail daysBack)
      \<or> isl (getPullRequests E (project_id p) (repo_id r) daysBack))"

section \<open>Double-precision arithmetic\<close>

text \<open>
  A JavaScript number is an IEEE 754 binary64 value, and \<^verbatim>\<open>/\<close> and \<^verbatim>\<open>*\<close> return the
  exact result rounded to the nearest such value, ties to the even significand. \<open>fl\<close> is
  that rounding on the rationals: \<open>expo x\<close> is the exponent \<open>e\<close> with
  \<open>2^e \<le> x < 2^(e+1)\<close>, the significand \<open>x / 2^(e - 52)\<close> is rounded to an integer of 53
  bits. So \<^verbatim>\<open>a / b\<close> is \<open>fl (a / b)\<close> and \<^verbatim>\<open>a * b\<close> is \<open>fl (a * b)\<close> for doubles \<open>a\<close> and
  \<open>b\<close>. Counts and array lengths are integers below \<open>2^53\<close> and are doubles as they are.
  The numbers in this program are far from the overflow and underflow thresholds, which
  are left out.
\<close>

definition roundHalfEven :: "rat \<Rightarrow> int" where
  "roundHalfEven s =
     (let f = \<lfloor>s\<rfloor>; r = s - of_int f
      in if r < 1 / 2 then f else if 1 / 2 < r then f + 1 else if even f then f else f + 1)"

definition expo :: "rat \<Rightarrow> int" where
  "expo x =
     (let (p, q) = quotient_of x; d = bitlen p - bitlen q
      in if 2 powi d \<le> x then d else d - 1)"

definition fl :: "rat \<Rightarrow> rat" where
  "fl x =
     (if x = 0 then 0
      else (let e = expo \<bar>x\<bar>
            in sgn x * of_int (roundHalfEven (\<bar>x\<bar> * 2 powi (52 - e))) * 2 powi (e - 52)))"

text \<open>
  \<^verbatim>\<open>Math.round\<close>: the integer nearest to its argument, a tie going up. It is exact: no
  sum is rounded on the way.
\<close>

definition Math_round :: "rat \<Rightarrow> int" where
  "Math_round x = \<lfloor>x + 1 / 2\<rfloor>"

section \<open>Organization-wide distributions\<close>

text \<open>
  \<^verbatim>\<open>userCounts[email] = (userCounts[email] || 0) + 1\<close> on an object that starts empty.
  The object is an association list in insertion order, which is the order of
  \<^verbatim>\<open>Object.values\<close> for keys that are not array indices; the order of a distribution plays
  no part in its percentiles, which sort it first. Two behaviours of an object literal
  are outside this list: a key that names a property every object inherits
  (\<^verbatim>\<open>constructor\<close>, \<^verbatim>\<open>toString\<close>, \<^verbatim>\<open>valueOf\<close>, \<^verbatim>\<open>hasOwnProperty\<close>, ...) reads that property
  on its first occurrence, so the code stores a string under it and not a count, and keys
  that are array indices (\<^verbatim>\<open>'7'\<close>) come first in \<^verbatim>\<open>Object.values\<close>, in numeric order. The
  keys here are e-mail addresses and account names, which are neither.
\<close>

definition countUp :: "string \<Rightarrow> (string \<times> int) list \<Rightarrow> (string \<times> int) list" where
  "countUp k userCounts =
     AList.update k ((case map_of userCounts k of None \<Rightarrow> 0 | Some n \<Rightarrow> n) + 1) userCounts"

text \<open>\<^verbatim>\<open>commit.author?.email || 'unknown'\<close>: a missing or empty email is \<^verbatim>\<open>'unknown'\<close>.\<close>

definition orUnknown :: "string option \<Rightarrow> string" where
  "orUnknown v = (case v of None \<Rightarrow> ''unknown'' | Some e \<Rightarrow> if e = [] then ''unknown'' else e)"

definition groupCommitsByUser :: "commit list \<Rightarrow> (string \<times> int) list" where
  "groupCommitsByUser commits = foldl (\<lambda>userCounts c. countUp (orUnknown (authorEmail c)) userCounts) [] commits"

definition creatorName :: "pullRequest \<Rightarrow> string option" where
  "creatorName pr = (case createdBy pr of None \<Rightarrow> None | Some i \<Rightarrow> uniqueName i)"

definition groupPRsByUser :: "pullRequest list \<Rightarrow> (string \<times> int) list" where
  "groupPRsByUser prs = foldl (\<lambda>userCounts pr. countUp (orUnknown (creatorName pr)) userCounts) [] prs"

subsection \<open>The synthetic generators\<close>

text \<open>
  \<^verbatim>\<open>Math.random()\<close> is a stream \<open>rng\<close> of numbers and a position \<open>pos\<close> in it; each call
  reads \<open>rng pos\<close> and moves on. The three generators are the same loop with two
  constants \<open>A\<close> and \<open>B\<close>:
  \<^verbatim>\<open>stats.push(Math.floor(Math.random() * A) + Math.floor(Math.random() * Math.random() * B))\<close>,
  the operands read left to right and every product rounded to a double.
\<close>

function mockStatsLoop ::
  "rat \<Rightarrow> rat \<Rightarrow> (nat \<Rightarrow> rat) \<Rightarrow> nat \<Rightarrow> int list \<Rightarrow> nat \<Rightarrow> int list \<times> nat" where
  "mockStatsLoop A B rng i stats pos =
     (if i < 50
      then mockStatsLoop A B rng (i + 1)
             (stats @ [\<lfloor>fl (rng pos * A)\<rfloor> + \<lfloor>fl (fl (rng (pos + 1) * rng (pos + 2)) * B)\<rfloor>])
             (pos + 3)
      else (stats, pos))"
  by pat_completeness auto
termination
  by (relation "measure (\<lambda>(A, B, rng, i, stats, pos). 50 - i)") auto

declare mockStatsLoop.simps [simp del]

definition generateMockCommitStats :: "(nat \<Rightarrow> rat) \<Rightarrow> nat \<Rightarrow> int list \<times> nat" where
  "generateMockCommitStats rng pos = mockStatsLoop 20 50 rng 0 [] pos"

definition generateMockPRStats :: "(nat \<Rightarrow> rat) \<Rightarrow> nat \<Rightarrow> int list \<times> nat" where
  "generateMockPRStats rng pos = mockStatsLoop 10 25 rng 0 [] pos"

definition generateMockWorkItemStats :: "(nat \<Rightarrow> rat) \<Rightarrow> nat \<Rightarrow> int list \<times> nat" where
  "generateMockWorkItemStats rng pos = mockStatsLoop 15 30 rng 0 [] pos"

subsection \<open>getProjectOrgStats\<close>

record orgStats =
  os_commits :: "int list"
  os_prs :: "int list"
  os_workItems :: "int list"

text \<open>
  The loop over \<^verbatim>\<open>repos.slice(0, 5)\<close>; \<^verbatim>\<open>Object.values(userCounts)\<close> are the counts in
  insertion order. As in \<open>analyzeRepos\<close>, an \<^verbatim>\<open>await\<close> that throws stops the loop.
\<close>

fun sampleRepos ::
  "env \<Rightarrow> project \<Rightarrow> int \<Rightarrow> repo list \<Rightarrow> orgStats \<Rightarrow> orgStats \<times> error option" where
  "sampleRepos E p daysBack [] os = (os, None)"
| "sampleRepos E p daysBack (r # rs) os =
     (case getCommits E (project_id p) (repo_id r) None daysBack of
        Inl e \<Rightarrow> (os, Some e)
      | Inr commits \<Rightarrow>
          (let os1 = os\<lparr>os_commits := os_commits os @ map snd (groupCommitsByUser commits)\<rparr> in
           case getPullRequests E (project_id p) (repo_id r) daysBack of
             Inl e \<Rightarrow> (os1, Some e)
           | Inr prs \<Rightarrow>
               sampleRepos E p daysBack rs
                 (os1\<lparr>os_prs := os_prs os1 @ map snd (groupPRsByUser prs)\<rparr>)))"

text \<open>The \<^verbatim>\<open>catch\<close> branch: the three lists are assigned anew from the generators.\<close>

definition mockOrgStats :: "(nat \<Rightarrow> rat) \<Rightarrow> nat \<Rightarrow> orgStats \<times> nat" where
  "mockOrgStats rng pos =
     (let (c, pos1) = generateMockCommitStats rng pos;
          (q, pos2) = generateMockPRStats rng pos1;
          (w, pos3) = generateMockWorkItemStats rng pos2
      in (\<lparr>os_commits = c, os_prs = q, os_workItems = w\<rparr>, pos3))"

definition getProjectOrgStats ::
  "env \<Rightarrow> project \<Rightarrow> int \<Rightarrow> (nat \<Rightarrow> rat) \<Rightarrow> nat \<Rightarrow> orgStats \<times> nat" where
  "getProjectOrgStats E p daysBack rng pos =
     (case getRepositories E (project_id p) of
        Inl e \<Rightarrow> mockOrgStats rng pos
      | Inr repos \<Rightarrow>
          (case sampleRepos E p daysBack (take 5 repos)
                  \<lparr>os_commits = [], os_prs = [], os_workItems = []\<rparr> of
             (os, Some e) \<Rightarrow> mockOrgStats rng pos
           | (os, None) \<Rightarrow>
               (let (w, pos1) = generateMockWorkItemStats rng pos
                in (os\<lparr>os_workItems := os_workItems os @ w\<rparr>, pos1))))"

text \<open>
  What one sampled repository adds to the commit and pull-request lists when its fetches
  return: one count per author, in the order in which the authors first appear.
\<close>

definition commitCounts :: "env \<Rightarrow> project \<Rightarrow> int \<Rightarrow> repo \<Rightarrow> int list" where
  "commitCounts E p daysBack r =
     (case getCommits E (project_id p) (repo_id r) None daysBack of
        Inl e \<Rightarrow> []
      | Inr commits \<Rightarrow> map snd (groupCommitsByUser commits))"

definition prCounts :: "env \<Rightarrow> project \<Rightarrow> int \<Rightarrow> repo \<Rightarrow> int list" where
  "prCounts E p daysBack r =
     (case getPullRequests E (project_id p) (repo_id r) daysBack of
        Inl e \<Rightarrow> []
      | Inr prs \<Rightarrow> map snd (groupPRsByUser prs))"

section \<open>Percentiles\<close>

text \<open>
  The loop of \<^verbatim>\<open>getPercentile\<close> over the sorted values: \<^verbatim>\<open>count++\<close> while the value is
  below \<^verbatim>\<open>userValue\<close>, \<^verbatim>\<open>break\<close> at the first that is not.
\<close>

fun countLoop :: "int list \<Rightarrow> int \<Rightarrow> int \<Rightarrow> int" where
  "countLoop [] userValue count = count"
| "countLoop (v # vs) userValue count =
     (if v < userValue then countLoop vs userValue (count + 1) else count)"

definition getPercentile :: "int list \<Rightarrow> int \<Rightarrow> int" where
  "getPercentile values userValue =
     (if length values = 0 \<or> userValue = 0 then 0
      else (let sorted = sort values;
                count = countLoop sorted userValue 0
            in Math_round (fl (fl (of_int count / of_nat (length sorted)) * 100))))"

text \<open>
  One metric of \<^verbatim>\<open>calculatePercentiles\<close>: the distribution filtered by
  \<^verbatim>\<open>count => count > 0\<close>, then \<^verbatim>\<open>getPercentile\<close> with the user's total.
\<close>

definition percentile :: "int list \<Rightarrow> int \<Rightarrow> int" where
  "percentile distribution userValue =
     getPercentile (filter (\<lambda>count. count > 0) distribution) userValue"

record percentiles =
  p_commits :: int
  p_prs :: int
  p_workItems :: int

text \<open>
  The vocabulary of the specification's percentile contract: the distribution after
  removing zero entries, the count of remaining values strictly less than the user's
  value, that count divided by the number of remaining values and multiplied by 100 as an
  exact rational, and rounding to the nearest integer with ties away from zero.
\<close>

definition nonZero :: "int list \<Rightarrow> int list" where
  "nonZero distribution = filter (\<lambda>c. c \<noteq> 0) distribution"

definition countBelow :: "int list \<Rightarrow> int \<Rightarrow> nat" where
  "countBelow remaining userValue = length (filter (\<lambda>v. v < userValue) remaining)"

definition exactPercent :: "int list \<Rightarrow> int \<Rightarrow> rat" where
  "exactPercent remaining userValue =
     of_nat (countBelow remaining userValue) / of_nat (length remaining) * 100"

definition roundHalfAwayFromZero :: "rat \<Rightarrow> int" where
  "roundHalfAwayFromZero x = (if 0 \<le> x then \<lfloor>x + 1 / 2\<rfloor> else - \<lfloor>- x + 1 / 2\<rfloor>)"

text \<open>The double \<^verbatim>\<open>(k / n) * 100\<close> that \<^verbatim>\<open>getPercentile\<close> hands to \<^verbatim>\<open>Math.round\<close>.\<close>

definition percentOf :: "nat \<Rightarrow> nat \<Rightarrow> rat" where
  "percentOf k n = fl (fl (of_nat k / of_nat n) * 100)"

section \<open>The aggregator\<close>

text \<open>
  The object \<^verbatim>\<open>metrics\<close> of \<^verbatim>\<open>fetchAllMetrics\<close>, with \<^verbatim>\<open>orgStats\<close> flattened into its three
  lists. \<^verbatim>\<open>timeline\<close> is created empty and never written, and is left out.
  \<^verbatim>\<open>percentiles\<close> is assigned after the loop.
\<close>

record metrics =
  totalCommits :: int
  totalPRs :: int
  totalWorkItems :: int
  activeRepos :: int
  repoStats :: "(string \<times> repoStat) list"
  projects :: "(string \<times> projectMetrics) list"
  allCommits :: "int list"
  allPRs :: "int list"
  allWorkItems :: "int list"
  m_percentiles :: "percentiles option"

definition emptyMetrics :: metrics where
  "emptyMetrics =
     \<lparr>totalCommits = 0, totalPRs = 0, totalWorkItems = 0, activeRepos = 0, repoStats = [],
      projects = [], allCommits = [], allPRs = [], allWorkItems = [], m_percentiles = None\<rparr>"

definition calculatePercentiles :: "metrics \<Rightarrow> string option \<Rightarrow> percentiles" where
  "calculatePercentiles m userEmail =
     \<lparr>p_commits = percentile (allCommits m) (totalCommits m),
      p_prs = percentile (allPRs m) (totalPRs m),
      p_workItems = percentile (allWorkItems m) (totalWorkItems m)\<rparr>"

text \<open>
  \<^verbatim>\<open>Object.keys(projectMetrics.repoStats).forEach(...)\<close>: each key of the project, in
  order, with the entry \<^verbatim>\<open>projectMetrics.repoStats[repo]\<close> stored under it. An active entry
  is counted and assigned to the same key of \<^verbatim>\<open>metrics.repoStats\<close>.
\<close>

definition isActive :: "repoStat \<Rightarrow> bool" where
  "isActive st = (rs_commits st > 0 \<or> rs_prs st > 0)"

definition mergeRepoStats :: "(string \<times> repoStat) list \<Rightarrow> metrics \<Rightarrow> metrics" where
  "mergeRepoStats stats m =
     foldl (\<lambda>m (repo, st).
              if isActive st
              then m\<lparr>activeRepos := activeRepos m + 1,
                      repoStats := AList.update repo st (repoStats m)\<rparr>
              else m)
       m stats"

text \<open>One round of the \<^verbatim>\<open>for (const project of projects)\<close> loop of \<^verbatim>\<open>fetchAllMetrics\<close>.\<close>

definition addProject :: "string \<Rightarrow> projectMetrics \<Rightarrow> orgStats \<Rightarrow> metrics \<Rightarrow> metrics" where
  "addProject name pm os m =
     (let m1 = m\<lparr>totalCommits := totalCommits m + pm_commits pm,
                  totalPRs := totalPRs m + pm_prs pm,
                  totalWorkItems := totalWorkItems m + pm_workItems pm\<rparr>;
          m2 = mergeRepoStats (pm_repoStats pm) m1
      in m2\<lparr>allCommits := allCommits m2 @ os_commits os,
             allPRs := allPRs m2 @ os_prs os,
             allWorkItems := allWorkItems m2 @ os_workItems os,
             projects := projects m2 @ [(name, pm)]\<rparr>)"

fun projectsLoop ::
  "env \<Rightarrow> int \<Rightarrow> string option \<Rightarrow> (nat \<Rightarrow> rat) \<Rightarrow> project list \<Rightarrow> metrics \<Rightarrow> nat
     \<Rightarrow> metrics \<times> nat" where
  "projectsLoop E daysBack userEmail rng [] m pos = (m, pos)"
| "projectsLoop E daysBack userEmail rng (p # ps) m pos =
     (let projectMetrics = analyzeProject E p daysBack userEmail;
          (orgProjectStats, pos1) = getProjectOrgStats E p daysBack rng pos
      in projectsLoop E daysBack userEmail rng ps
           (addProject (project_name p) projectMetrics orgProjectStats m) pos1)"

text \<open>
  \<^verbatim>\<open>fetchAllMetrics\<close>: the only call outside a \<^verbatim>\<open>try\<close> that can throw is
  \<^verbatim>\<open>getProjects\<close>. The authorization header is passed through to \<^verbatim>\<open>fetch\<close> and is part
  of the remote end here.
\<close>

definition fetchAllMetrics ::
  "env \<Rightarrow> int \<Rightarrow> string option \<Rightarrow> (nat \<Rightarrow> rat) \<Rightarrow> error + metrics" where
  "fetchAllMetrics E daysBack userEmail rng =
     (case getProjects E of
        Inl e \<Rightarrow> Inl e
      | Inr ps \<Rightarrow>
          (let (m, pos) = projectsLoop E daysBack userEmail rng ps emptyMetrics 0
           in Inr (m\<lparr>m_percentiles := Some (calculatePercentiles m userEmail)\<rparr>)))"

section \<open>Example data\<close>

definition commitBy :: "string \<Rightarrow> commit" where
  "commitBy e = \<lparr>author = Some \<lparr>email = Some e\<rparr>\<rparr>"

definition commitNoAuthor :: commit where
  "commitNoAuthor = \<lparr>author = None\<rparr>"

definition commitNoEmail :: commit where
  "commitNoEmail = \<lparr>author = Some \<lparr>email = None\<rparr>\<rparr>"

text \<open>
  A remote end that answers every request with the same response per endpoint. Its clock
  gives one date for a lookback of 30 days and another for every other lookback.
\<close>

definition constEnv ::
  "project response \<Rightarrow> repo response \<Rightarrow> commit response \<Rightarrow> pullRequest response
     \<Rightarrow> workItem response \<Rightarrow> env" where
  "constEnv ps rs cs qs ws =
     \<lparr>baseUrl = ''https://dev.azure.com/org/'',
      sinceDateISO = (\<lambda>d. if d = 30 then ''2025-06-01T00:00:00.000Z'' else ''2025-04-02T00:00:00.000Z''),
      fetchProjects = (\<lambda>u. ps), fetchRepositories = (\<lambda>u. rs), fetchCommits = (\<lambda>u. cs),
      fetchPullRequests = (\<lambda>u. qs), fetchWorkItems = (\<lambda>u b. ws)\<rparr>"

definition okList :: "'a list \<Rightarrow> 'a response" where
  "okList xs = Response True ''OK'' (Json (Some xs))"

definition offlineEnv :: env where
  "offlineEnv = constEnv NetworkError NetworkError NetworkError NetworkError NetworkError"

definition notFoundEnv :: env where
  "notFoundEnv =
     constEnv (Response False ''Not Found'' Malformed) (Response False ''Not Found'' Malformed)
       (Response False ''Not Found'' Malformed) (Response False ''Not Found'' Malformed)
       (Response False ''Not Found'' Malformed)"

definition malformedEnv :: env where
  "malformedEnv =
     constEnv (Response True ''OK'' Malformed) (Response True ''OK'' Malformed)
       (Response True ''OK'' Malformed) (Response True ''OK'' Malformed)
       (Response True ''OK'' Malformed)"

definition proj1 :: project where
  "proj1 = \<lparr>project_id = ''p1'', project_name = ''P1''\<rparr>"

definition repo1 :: repo where
  "repo1 = \<lparr>repo_id = ''r1'', repo_name = ''A''\<rparr>"

definition repo2 :: repo where
  "repo2 = \<lparr>repo_id = ''r2'', repo_name = ''B''\<rparr>"

text \<open>Only the project list can be fetched.\<close>

definition onlyProjectsEnv :: env where
  "onlyProjectsEnv = constEnv (okList [proj1]) NetworkError NetworkError NetworkError NetworkError"

text \<open>
  One project with two repositories: the commits of the first arrive (one commit), the
  commit fetch of the second is rejected.
\<close>

definition secondRepoDownEnv :: env where
  "secondRepoDownEnv =
     (constEnv (okList [proj1]) (okList [repo1, repo2]) NetworkError (okList []) (okList []))
       \<lparr>fetchCommits := (\<lambda>url.
          if url = ''https://dev.azure.com/org//p1/_apis/git/repositories/r1/commits?api-version=6.0&$top=1000&searchCriteria.fromDate=2025-06-01T00:00:00.000Z''
          then okList [commitBy ''u@x.com''] else NetworkError)\<rparr>"

text \<open>One project with one repository and one commit; the work-item query is rejected.\<close>

definition workItemsDownEnv :: env where
  "workItemsDownEnv =
     constEnv (okList [proj1]) (okList [repo1]) (okList [commitBy ''u@x.com'']) (okList [])
       NetworkError"

text \<open>
  One project with two repositories: the commits of the first arrive (one commit), the
  commit request of the second is answered with the status 404.
\<close>

definition repo404Env :: env where
  "repo404Env =
     (constEnv (okList [proj1]) (okList [repo1, repo2]) (Response False ''Not Found'' Malformed)
        (okList []) (okList []))
       \<lparr>fetchCommits := (\<lambda>url.
          if url = ''https://dev.azure.com/org//p1/_apis/git/repositories/r1/commits?api-version=6.0&$top=1000&searchCriteria.fromDate=2025-06-01T00:00:00.000Z''
          then okList [commitBy ''u@x.com''] else Response False ''Not Found'' Malformed)\<rparr>"

text \<open>Two projects with different names, each with the repositories \<open>A\<close> and \<open>B\<close>.\<close>

definition projA :: project where
  "projA = \<lparr>project_id = ''pa'', project_name = ''P''\<rparr>"

definition twoProjectsEnv :: env where
  "twoProjectsEnv =
     constEnv (okList [proj1, projA]) (okList [repo1, repo2]) (okList [commitBy ''u@x.com''])
       (okList []) (okList [])"

text \<open>
  The double nearest to \<open>0.7\<close>, a value \<^verbatim>\<open>Math.random()\<close> can return: it lies just below
  \<open>7/10\<close>, and its product with 20 rounds to the double 14.
\<close>

definition double07 :: rat where
  "double07 = 3152519739159347 / 4503599627370496"

text \<open>Forty contributors: 23 with one commit and 17 with three.\<close>

definition tieDistribution :: "int list" where
  "tieDistribution = replicate 23 1 @ replicate 17 3"

text \<open>
  The end-to-end scenario of the specification: one project with the repositories \<open>A\<close>
  and \<open>B\<close>; \<open>A\<close> has three commits by \<open>user@x.com\<close> (one of them spelled with capitals),
  two by others and one pull request; \<open>B\<close> has nothing.
\<close>

definition scenarioProject :: project where
  "scenarioProject = \<lparr>project_id = ''p1'', project_name = ''Proj''\<rparr>"

definition scenarioEnv :: env where
  "scenarioEnv =
     (constEnv (okList [scenarioProject])
        (okList [\<lparr>repo_id = ''ra'', repo_name = ''A''\<rparr>, \<lparr>repo_id = ''rb'', repo_name = ''B''\<rparr>])
        (okList []) (okList []) (okList []))
       \<lparr>fetchCommits := (\<lambda>url.
          if url = ''https://dev.azure.com/org//p1/_apis/git/repositories/ra/commits?api-version=6.0&$top=1000&searchCriteria.fromDate=2025-06-01T00:00:00.000Z''
          then okList [commitBy ''user@x.com'', commitBy ''other@x.com'', commitBy ''User@X.com'',
                 commitNoAuthor, commitBy ''user@x.com'']
          else okList []),
        fetchPullRequests := (\<lambda>url.
          if url = ''https://dev.azure.com/org//p1/_apis/git/repositories/ra/pullrequests?api-version=6.0&searchCriteria.status=all&$top=1000''
          then okList [\<lparr>createdBy = Some \<lparr>uniqueName = Some ''user@x.com''\<rparr>\<rparr>]
          else okList [])\<rparr>"

text \<open>
  One project with six repositories of one commit each; the commit fetch of the sixth is
  rejected.
\<close>

definition sixRepos :: "repo list" where
  "sixRepos =
     [\<lparr>repo_id = ''r1'', repo_name = ''A''\<rparr>, \<lparr>repo_id = ''r2'', repo_name = ''B''\<rparr>,
      \<lparr>repo_id = ''r3'', repo_name = ''C''\<rparr>, \<lparr>repo_id = ''r4'', repo_name = ''D''\<rparr>,
      \<lparr>repo_id = ''r5'', repo_name = ''E''\<rparr>, \<lparr>repo_id = ''r6'', repo_name = ''F''\<rparr>]"

definition sixReposEnv :: env where
  "sixReposEnv =
     (constEnv (okList [proj1]) (okList sixRepos) (okList [commitBy ''u@x.com'']) (okList [])
        (okList []))
       \<lparr>fetchCommits := (\<lambda>url.
          if url = ''https://dev.azure.com/org//p1/_apis/git/repositories/r6/commits?api-version=6.0&$top=1000&searchCriteria.fromDate=2025-06-01T00:00:00.000Z''
          then NetworkError else okList [commitBy ''u@x.com''])\<rparr>"

section \<open>The user filter: properties\<close>

lemma length_toLowerCase: "length (toLowerCase s) = length s"
  by (simp add: toLowerCase_def)

lemma toLowerCase_eq_nonempty: "toLowerCase e = toLowerCase u \<Longrightarrow> u \<noteq> [] \<Longrightarrow> e \<noteq> []"
  using length_toLowerCase [of e] length_toLowerCase [of u] by auto

text \<open>
  Claim C5. For a non-empty identity the filter returns exactly the commits whose author
  email, lower-cased, equals the lower-cased identity, in their order; a commit without an
  author email is never in that result; an absent or empty identity returns the list
  unchanged; the result is always a subsequence of the input.
\<close>

theorem filterCommitsByUser_spec:
  "(u \<noteq> [] \<longrightarrow>
      filterCommitsByUser cs (Some u) =
        filter (\<lambda>c. case authorEmail c of None \<Rightarrow> False
                                          | Some e \<Rightarrow> toLowerCase e = toLowerCase u) cs)
   \<and> (u \<noteq> [] \<longrightarrow> (\<forall>c \<in> set (filterCommitsByUser cs (Some u)). authorEmail c \<noteq> None))
   \<and> filterCommitsByUser cs None = cs
   \<and> filterCommitsByUser cs (Some []) = cs
   \<and> subseq (filterCommitsByUser cs w) cs
   \<and> length (filterCommitsByUser cs w) \<le> length cs"
proof -
  have eq: "filterCommitsByUser cs (Some u) =
        filter (\<lambda>c. case authorEmail c of None \<Rightarrow> False
                                          | Some e \<Rightarrow> toLowerCase e = toLowerCase u) cs"
    if "u \<noteq> []"
    unfolding filterCommitsByUser_def authorEmail_def using that
    by (auto intro!: filter_cong split: option.splits dest: toLowerCase_eq_nonempty)
  have mem: "\<forall>c \<in> set (filterCommitsByUser cs (Some u)). authorEmail c \<noteq> None" if "u \<noteq> []"
    unfolding eq [OF that] by (auto split: option.splits)
  have sub: "subseq (filterCommitsByUser cs w) cs"
    by (auto simp: filterCommitsByUser_def split: option.splits)
  have len: "length (filterCommitsByUser cs w) \<le> length cs"
    by (auto simp: filterCommitsByUser_def split: option.splits)
  show ?thesis
    using eq mem sub len by (simp add: filterCommitsByUser_def)
qed

theorem filterCommitsByUser_spec_witness:
  "''User@X.com'' \<noteq> []
   \<and> filterCommitsByUser [commitBy ''user@x.COM'', commitNoAuthor, commitBy ''other@x.com'', commitNoEmail]
        (Some ''User@X.com'') = [commitBy ''user@x.COM'']
   \<and> list_all (\<lambda>c. authorEmail c \<noteq> None) (filterCommitsByUser
          [commitBy ''user@x.COM'', commitNoAuthor, commitBy ''other@x.com'', commitNoEmail]
          (Some ''User@X.com''))"
proof (intro conjI)
  show h: "''User@X.com'' \<noteq> []"
    by simp
  show "filterCommitsByUser
      [commitBy ''user@x.COM'', commitNoAuthor, commitBy ''other@x.com'', commitNoEmail]
      (Some ''User@X.com'') = [commitBy ''user@x.COM'']"
    by code_simp
  show "list_all (\<lambda>c. authorEmail c \<noteq> None) (filterCommitsByUser
          [commitBy ''user@x.COM'', commitNoAuthor, commitBy ''other@x.com'', commitNoEmail]
          (Some ''User@X.com''))"
    unfolding list_all_iff
    using filterCommitsByUser_spec [of "''User@X.com''"
        "[commitBy ''user@x.COM'', commitNoAuthor, commitBy ''other@x.com'', commitNoEmail]"] h
    by blast
qed

section \<open>The sub-fetches: properties\<close>

lemma readList_simps:
  "readList NetworkError = Inl FetchRejected"
  "readList (Response False st b) = Inr []"
  "readList (Response True st Malformed) = Inl JsonRejected"
  "readList (Response True st (Json v)) = Inr (orEmpty v)"
  by (simp_all add: readList_def)

text \<open>
  Claim C3, as the code has it. For each of the four sub-fetches (repositories, commits,
  pull requests, work items): a response that is not ok yields the empty list; a rejected
  \<^verbatim>\<open>fetch\<close> (network error) and a body that does not parse are thrown out of the
  sub-fetch, to the \<^verbatim>\<open>try\<close> of the project that called it.
\<close>

theorem subFetch_failures:
  "(fetchRepositories E1 (repositoriesUrl E1 pid) = Response False st b1 \<longrightarrow>
      getRepositories E1 pid = Inr [])
   \<and> (fetchCommits E1 (commitsUrl E1 pid rid d) = Response False st b2 \<longrightarrow>
      getCommits E1 pid rid u d = Inr [])
   \<and> (fetchPullRequests E1 (pullRequestsUrl E1 pid rid) = Response False st b3 \<longrightarrow>
      getPullRequests E1 pid rid d = Inr [])
   \<and> (fetchWorkItems E1 (workItemsUrl E1 pid) (wiqlQuery E1 a d) = Response False st b4 \<longrightarrow>
      getWorkItems E1 pid a d = Inr [])
   \<and> (fetchRepositories E2 (repositoriesUrl E2 pid) = NetworkError \<longrightarrow>
      getRepositories E2 pid = Inl FetchRejected)
   \<and> (fetchCommits E2 (commitsUrl E2 pid rid d) = NetworkError \<longrightarrow>
      getCommits E2 pid rid u d = Inl FetchRejected)
   \<and> (fetchPullRequests E2 (pullRequestsUrl E2 pid rid) = NetworkError \<longrightarrow>
      getPullRequests E2 pid rid d = Inl FetchRejected)
   \<and> (fetchWorkItems E2 (workItemsUrl E2 pid) (wiqlQuery E2 a d) = NetworkError \<longrightarrow>
      getWorkItems E2 pid a d = Inl FetchRejected)
   \<and> (fetchRepositories E3 (repositoriesUrl E3 pid) = Response True st' Malformed \<longrightarrow>
      getRepositories E3 pid = Inl JsonRejected)
   \<and> (fetchCommits E3 (commitsUrl E3 pid rid d) = Response True st' Malformed \<longrightarrow>
      getCommits E3 pid rid u d = Inl JsonRejected)
   \<and> (fetchPullRequests E3 (pullRequestsUrl E3 pid rid) = Response True st' Malformed \<longrightarrow>
      getPullRequests E3 pid rid d = Inl JsonRejected)
   \<and> (fetchWorkItems E3 (workItemsUrl E3 pid) (wiqlQuery E3 a d) = Response True st' Malformed \<longrightarrow>
      getWorkItems E3 pid a d = Inl JsonRejected)"
  by (simp add: getRepositories_def getCommits_def getPullRequests_def getWorkItems_def
      readList_simps)

theorem subFetch_failures_witness:
  "fetchRepositories notFoundEnv (repositoriesUrl notFoundEnv ''p1'')
     = Response False ''Not Found'' Malformed
   \<and> fetchCommits notFoundEnv (commitsUrl notFoundEnv ''p1'' ''r1'' 30)
     = Response False ''Not Found'' Malformed
   \<and> fetchPullRequests notFoundEnv (pullRequestsUrl notFoundEnv ''p1'' ''r1'')
     = Response False ''Not Found'' Malformed
   \<and> fetchWorkItems notFoundEnv (workItemsUrl notFoundEnv ''p1'') (wiqlQuery notFoundEnv ''u@x.com'' 30)
     = Response False ''Not Found'' Malformed
   \<and> getRepositories notFoundEnv ''p1'' = Inr []
   \<and> getCommits notFoundEnv ''p1'' ''r1'' None 30 = Inr []
   \<and> getPullRequests notFoundEnv ''p1'' ''r1'' 30 = Inr []
   \<and> getWorkItems notFoundEnv ''p1'' ''u@x.com'' 30 = Inr []
   \<and> fetchRepositories offlineEnv (repositoriesUrl offlineEnv ''p1'') = NetworkError
   \<and> fetchCommits offlineEnv (commitsUrl offlineEnv ''p1'' ''r1'' 30) = NetworkError
   \<and> fetchPullRequests offlineEnv (pullRequestsUrl offlineEnv ''p1'' ''r1'') = NetworkError
   \<and> fetchWorkItems offlineEnv (workItemsUrl offlineEnv ''p1'') (wiqlQuery offlineEnv ''u@x.com'' 30)
     = NetworkError
   \<and> getRepositories offlineEnv ''p1'' = Inl FetchRejected
   \<and> getCommits offlineEnv ''p1'' ''r1'' None 30 = Inl FetchRejected
   \<and> getPullRequests offlineEnv ''p1'' ''r1'' 30 = Inl FetchRejected
   \<and> getWorkItems offlineEnv ''p1'' ''u@x.com'' 30 = Inl FetchRejected
   \<and> fetchRepositories malformedEnv (repositoriesUrl malformedEnv ''p1'')
     = Response True ''OK'' Malformed
   \<and> fetchCommits malformedEnv (commitsUrl malformedEnv ''p1'' ''r1'' 30)
     = Response True ''OK'' Malformed
   \<and> fetchPullRequests malformedEnv (pullRequestsUrl malformedEnv ''p1'' ''r1'')
     = Response True ''OK'' Malformed
   \<and> fetchWorkItems malformedEnv (workItemsUrl malformedEnv ''p1'') (wiqlQuery malformedEnv ''u@x.com'' 30)
     = Response True ''OK'' Malformed
   \<and> getRepositories malformedEnv ''p1'' = Inl JsonRejected
   \<and> getCommits malformedEnv ''p1'' ''r1'' None 30 = Inl JsonRejected
   \<and> getPullRequests malformedEnv ''p1'' ''r1'' 30 = Inl JsonRejected
   \<and> getWorkItems malformedEnv ''p1'' ''u@x.com'' 30 = Inl JsonRejected"
proof -
  have n: "fetchRepositories notFoundEnv x = Response False ''Not Found'' Malformed"
    "fetchCommits notFoundEnv x = Response False ''Not Found'' Malformed"
    "fetchPullRequests notFoundEnv x = Response False ''Not Found'' Malformed"
    "fetchWorkItems notFoundEnv x y = Response False ''Not Found'' Malformed" for x y
    by (simp_all add: notFoundEnv_def constEnv_def)
  have f: "fetchRepositories offlineEnv x = NetworkError" "fetchCommits offlineEnv x = NetworkError"
    "fetchPullRequests offlineEnv x = NetworkError" "fetchWorkItems offlineEnv x y = NetworkError"
    for x y
    by (simp_all add: offlineEnv_def constEnv_def)
  have m: "fetchRepositories malformedEnv x = Response True ''OK'' Malformed"
    "fetchCommits malformedEnv x = Response True ''OK'' Malformed"
    "fetchPullRequests malformedEnv x = Response True ''OK'' Malformed"
    "fetchWorkItems malformedEnv x y = Response True ''OK'' Malformed" for x y
    by (simp_all add: malformedEnv_def constEnv_def)
  show ?thesis
    using subFetch_failures [of notFoundEnv "''p1''" "''Not Found''" Malformed "''r1''" 30
        Malformed None Malformed "''u@x.com''" Malformed offlineEnv malformedEnv "''OK''"]
    by (simp only: n f m simp_thms)
qed

text \<open>
  The claim as the specification states it fails: with the network down the commit fetch
  throws instead of returning the empty list, and so does the pull-request fetch on a body
  that does not parse.
\<close>

theorem subFetch_raises_counterexample:
  "getCommits offlineEnv ''p1'' ''r1'' None 30 = Inl FetchRejected
   \<and> getPullRequests malformedEnv ''p1'' ''r1'' 30 = Inl JsonRejected"
  by (simp add: getCommits_def getPullRequests_def readList_simps offlineEnv_def
      malformedEnv_def constEnv_def)

section \<open>The project list: properties\<close>

text \<open>
  Claim C7. When the project-list response is not ok, \<^verbatim>\<open>getProjects\<close> throws an error whose
  message ends with the status text, and \<^verbatim>\<open>fetchAllMetrics\<close> passes it on to its caller.
  Whatever the other fetches do, the run returns a snapshot once the project list is there:
  \<^verbatim>\<open>fetchAllMetrics\<close> throws exactly what \<^verbatim>\<open>getProjects\<close> throws.
\<close>

theorem getProjects_failure_aborts:
  "(fetchProjects E (projectsUrl E) = Response False st b \<longrightarrow>
      getProjects E = Inl (Error (''Failed to fetch projects: '' @ st))
      \<and> fetchAllMetrics E d u rng = Inl (Error (''Failed to fetch projects: '' @ st)))
   \<and> (getProjects E' = Inr ps \<longrightarrow> (\<exists>m. fetchAllMetrics E' d u rng = Inr m))
   \<and> (fetchAllMetrics E d u rng = Inl e \<longleftrightarrow> getProjects E = Inl e)"
  by (auto simp: fetchAllMetrics_def getProjects_def split: sum.splits prod.splits)

theorem getProjects_failure_aborts_witness:
  "fetchProjects notFoundEnv (projectsUrl notFoundEnv) = Response False ''Not Found'' Malformed
   \<and> getProjects notFoundEnv = Inl (Error ''Failed to fetch projects: Not Found'')
   \<and> fetchAllMetrics notFoundEnv 30 None (\<lambda>n. 0) = Inl (Error ''Failed to fetch projects: Not Found'')
   \<and> getProjects onlyProjectsEnv = Inr [proj1]
   \<and> (\<exists>m. fetchAllMetrics onlyProjectsEnv 30 None (\<lambda>n. 0) = Inr m)"
proof -
  have h1: "fetchProjects notFoundEnv (projectsUrl notFoundEnv) = Response False ''Not Found'' Malformed"
    by (simp add: notFoundEnv_def constEnv_def)
  have h2: "getProjects onlyProjectsEnv = Inr [proj1]"
    by (simp add: getProjects_def onlyProjectsEnv_def constEnv_def okList_def orEmpty_def)
  show ?thesis
    using getProjects_failure_aborts [of notFoundEnv "''Not Found''" Malformed 30 None "\<lambda>n. 0"
        onlyProjectsEnv "[proj1]"] h1 h2
    by simp
qed

section \<open>Per-project analysis: properties\<close>

lemma analyzeRepos_fail_head:
  "repoFails E p d u r \<Longrightarrow> \<exists>e. analyzeRepos E p d u (r # rs) pm = (pm, Some e)"
  by (auto simp: repoFails_def isl_def Let_def split: sum.splits)

lemma not_repoFails:
  assumes "\<not> repoFails E p d u x"
  obtains cs qs where "getCommits E (project_id p) (repo_id x) u d = Inr cs"
    and "getPullRequests E (project_id p) (repo_id x) d = Inr qs"
proof -
  from assms have "\<not> isl (getCommits E (project_id p) (repo_id x) u d)"
    and "\<not> isl (getPullRequests E (project_id p) (repo_id x) d)"
    by (simp_all add: repoFails_def)
  then show thesis
    using that by (cases "getCommits E (project_id p) (repo_id x) u d";
        cases "getPullRequests E (project_id p) (repo_id x) d") simp_all
qed

lemma analyzeRepos_append_ok:
  "\<forall>x \<in> set xs. \<not> repoFails E p d u x \<Longrightarrow>
     analyzeRepos E p d u (xs @ ys) pm = analyzeRepos E p d u ys (fst (analyzeRepos E p d u xs pm))"
proof (induction xs arbitrary: pm)
  case Nil
  then show ?case by simp
next
  case (Cons x xs)
  from Cons.prems have ok: "\<not> repoFails E p d u x"
    and rest: "\<forall>y \<in> set xs. \<not> repoFails E p d u y"
    by simp_all
  from ok obtain cs qs where "getCommits E (project_id p) (repo_id x) u d = Inr cs"
    and "getPullRequests E (project_id p) (repo_id x) d = Inr qs"
    by (rule not_repoFails)
  then show ?case
    using Cons.IH [OF rest] by (simp add: Let_def)
qed

lemma analyzeRepos_ok:
  "\<forall>x \<in> set xs. \<not> repoFails E p d u x \<Longrightarrow> snd (analyzeRepos E p d u xs pm) = None"
proof (induction xs arbitrary: pm)
  case Nil
  then show ?case by simp
next
  case (Cons x xs)
  from Cons.prems have ok: "\<not> repoFails E p d u x"
    and rest: "\<forall>y \<in> set xs. \<not> repoFails E p d u y"
    by simp_all
  from ok obtain cs qs where "getCommits E (project_id p) (repo_id x) u d = Inr cs"
    and "getPullRequests E (project_id p) (repo_id x) d = Inr qs"
    by (rule not_repoFails)
  then show ?case
    using Cons.IH [OF rest] by (simp add: Let_def)
qed

lemma analyzeRepos_stops:
  assumes "\<forall>x \<in> set xs. \<not> repoFails E p d u x" and "repoFails E p d u r"
  shows "\<exists>e. analyzeRepos E p d u (xs @ r # rs) pm = (fst (analyzeRepos E p d u xs pm), Some e)"
  using analyzeRepos_append_ok [OF assms(1)] analyzeRepos_fail_head [OF assms(2)] by simp

lemma analyzeRepos_workItems:
  "pm_workItems (fst (analyzeRepos E p d u xs pm)) = pm_workItems pm"
  by (induction xs arbitrary: pm) (auto simp: Let_def split: sum.splits)

lemma mergeRepoStats_frame:
  "totalCommits (mergeRepoStats stats m) = totalCommits m"
  "totalPRs (mergeRepoStats stats m) = totalPRs m"
  "totalWorkItems (mergeRepoStats stats m) = totalWorkItems m"
  "projects (mergeRepoStats stats m) = projects m"
  "allCommits (mergeRepoStats stats m) = allCommits m"
  "allPRs (mergeRepoStats stats m) = allPRs m"
  "allWorkItems (mergeRepoStats stats m) = allWorkItems m"
  unfolding mergeRepoStats_def
  by (induction stats arbitrary: m; simp split: prod.splits)+

lemma projectsLoop_totals:
  "totalCommits (fst (projectsLoop E d u rng ps m pos)) =
     totalCommits m + (\<Sum>p\<leftarrow>ps. pm_commits (analyzeProject E p d u))"
  "totalPRs (fst (projectsLoop E d u rng ps m pos)) =
     totalPRs m + (\<Sum>p\<leftarrow>ps. pm_prs (analyzeProject E p d u))"
  "totalWorkItems (fst (projectsLoop E d u rng ps m pos)) =
     totalWorkItems m + (\<Sum>p\<leftarrow>ps. pm_workItems (analyzeProject E p d u))"
  "projects (fst (projectsLoop E d u rng ps m pos)) =
     projects m @ map (\<lambda>p. (project_name p, analyzeProject E p d u)) ps"
  by (induction ps arbitrary: m pos;
      simp add: addProject_def Let_def mergeRepoStats_frame split: prod.splits)+

text \<open>
  Claim C1, as the code has it. \<^verbatim>\<open>analyzeProject\<close> never throws. When the repository
  list cannot be fetched the project contributes nothing. When the loop stops at a
  repository whose commit or pull-request fetch throws, the project contributes what the
  repositories before it gave, and no work items. When the work-item query throws, the
  project contributes what all its repositories gave, and no work items. In every
  case the run goes on: the totals of the snapshot are the sums of what each project
  contributes, and every project has its entry.
\<close>

theorem analyzeProject_failure:
  "(isl (getRepositories Ea (project_id p)) \<longrightarrow> analyzeProject Ea p d u = emptyProjectMetrics)
   \<and> (getRepositories Eb (project_id p) = Inr (xs @ r # rs)
        \<and> (\<forall>x \<in> set xs. \<not> repoFails Eb p d u x) \<and> repoFails Eb p d u r \<longrightarrow>
        analyzeProject Eb p d u = fst (analyzeRepos Eb p d u xs emptyProjectMetrics))
   \<and> (getRepositories Ec (project_id p) = Inr xs
        \<and> (\<forall>x \<in> set xs. \<not> repoFails Ec p d (Some a) x) \<and> a \<noteq> []
        \<and> isl (getWorkItems Ec (project_id p) a d) \<longrightarrow>
        analyzeProject Ec p d (Some a) = fst (analyzeRepos Ec p d (Some a) xs emptyProjectMetrics))
   \<and> pm_workItems (fst (analyzeRepos E p d u xs emptyProjectMetrics)) = 0
   \<and> (getProjects E = Inr ps \<longrightarrow>
        (\<exists>m. fetchAllMetrics E d u rng = Inr m
           \<and> totalCommits m = (\<Sum>q\<leftarrow>ps. pm_commits (analyzeProject E q d u))
           \<and> totalPRs m = (\<Sum>q\<leftarrow>ps. pm_prs (analyzeProject E q d u))
           \<and> totalWorkItems m = (\<Sum>q\<leftarrow>ps. pm_workItems (analyzeProject E q d u))
           \<and> projects m = map (\<lambda>q. (project_name q, analyzeProject E q d u)) ps))"
proof (intro conjI impI)
  assume "isl (getRepositories Ea (project_id p))"
  then show "analyzeProject Ea p d u = emptyProjectMetrics"
    by (auto simp: analyzeProject_def isl_def)
next
  assume h: "getRepositories Eb (project_id p) = Inr (xs @ r # rs)
        \<and> (\<forall>x \<in> set xs. \<not> repoFails Eb p d u x) \<and> repoFails Eb p d u r"
  then obtain e where
    "analyzeRepos Eb p d u (xs @ r # rs) emptyProjectMetrics =
       (fst (analyzeRepos Eb p d u xs emptyProjectMetrics), Some e)"
    using analyzeRepos_stops by blast
  with h show "analyzeProject Eb p d u = fst (analyzeRepos Eb p d u xs emptyProjectMetrics)"
    by (simp add: analyzeProject_def)
next
  assume h: "getRepositories Ec (project_id p) = Inr xs
        \<and> (\<forall>x \<in> set xs. \<not> repoFails Ec p d (Some a) x) \<and> a \<noteq> []
        \<and> isl (getWorkItems Ec (project_id p) a d)"
  then have "snd (analyzeRepos Ec p d (Some a) xs emptyProjectMetrics) = None"
    using analyzeRepos_ok by blast
  with h show "analyzeProject Ec p d (Some a) =
      fst (analyzeRepos Ec p d (Some a) xs emptyProjectMetrics)"
    by (auto simp: analyzeProject_def isl_def split: prod.splits option.splits)
next
  show "pm_workItems (fst (analyzeRepos E p d u xs emptyProjectMetrics)) = 0"
    by (simp add: analyzeRepos_workItems emptyProjectMetrics_def)
next
  assume g: "getProjects E = Inr ps"
  obtain m pos where l: "projectsLoop E d u rng ps emptyMetrics 0 = (m, pos)"
    by (cases "projectsLoop E d u rng ps emptyMetrics 0") auto
  have m: "m = fst (projectsLoop E d u rng ps emptyMetrics 0)"
    by (simp add: l)
  show "\<exists>m. fetchAllMetrics E d u rng = Inr m
           \<and> totalCommits m = (\<Sum>q\<leftarrow>ps. pm_commits (analyzeProject E q d u))
           \<and> totalPRs m = (\<Sum>q\<leftarrow>ps. pm_prs (analyzeProject E q d u))
           \<and> totalWorkItems m = (\<Sum>q\<leftarrow>ps. pm_workItems (analyzeProject E q d u))
           \<and> projects m = map (\<lambda>q. (project_name q, analyzeProject E q d u)) ps"
    by (simp add: fetchAllMetrics_def g l) (simp add: m projectsLoop_totals emptyMetrics_def)
qed

theorem analyzeProject_failure_witness:
  "isl (getRepositories offlineEnv (project_id proj1))
   \<and> analyzeProject offlineEnv proj1 30 (Some ''u@x.com'') = emptyProjectMetrics
   \<and> getRepositories secondRepoDownEnv (project_id proj1) = Inr ([repo1] @ repo2 # [])
   \<and> list_all (\<lambda>x. \<not> repoFails secondRepoDownEnv proj1 30 (Some ''u@x.com'') x) [repo1]
   \<and> repoFails secondRepoDownEnv proj1 30 (Some ''u@x.com'') repo2
   \<and> analyzeProject secondRepoDownEnv proj1 30 (Some ''u@x.com'') =
       fst (analyzeRepos secondRepoDownEnv proj1 30 (Some ''u@x.com'') [repo1] emptyProjectMetrics)
   \<and> getRepositories workItemsDownEnv (project_id proj1) = Inr [repo1]
   \<and> list_all (\<lambda>x. \<not> repoFails workItemsDownEnv proj1 30 (Some ''u@x.com'') x) [repo1]
   \<and> isl (getWorkItems workItemsDownEnv (project_id proj1) ''u@x.com'' 30)
   \<and> analyzeProject workItemsDownEnv proj1 30 (Some ''u@x.com'') =
       fst (analyzeRepos workItemsDownEnv proj1 30 (Some ''u@x.com'') [repo1] emptyProjectMetrics)
   \<and> getProjects secondRepoDownEnv = Inr [proj1]
   \<and> (\<exists>m. fetchAllMetrics secondRepoDownEnv 30 (Some ''u@x.com'') (\<lambda>n. 0) = Inr m
           \<and> totalCommits m = 1)"
proof -
  have h1: "isl (getRepositories offlineEnv (project_id proj1))"
    by code_simp
  have h2: "getRepositories secondRepoDownEnv (project_id proj1) = Inr ([repo1] @ repo2 # [])"
    by code_simp
  have h3: "\<forall>x \<in> set [repo1]. \<not> repoFails secondRepoDownEnv proj1 30 (Some ''u@x.com'') x"
    by code_simp
  have h4: "repoFails secondRepoDownEnv proj1 30 (Some ''u@x.com'') repo2"
    by code_simp
  have h5: "getRepositories workItemsDownEnv (project_id proj1) = Inr [repo1]"
    by code_simp
  have h6: "\<forall>x \<in> set [repo1]. \<not> repoFails workItemsDownEnv proj1 30 (Some ''u@x.com'') x"
    by code_simp
  have h7: "isl (getWorkItems workItemsDownEnv (project_id proj1) ''u@x.com'' 30)"
    by code_simp
  have h8: "''u@x.com'' \<noteq> []"
    by simp
  have h9: "getProjects secondRepoDownEnv = Inr [proj1]"
    by code_simp
  have v: "pm_commits (analyzeProject secondRepoDownEnv proj1 30 (Some ''u@x.com'')) = 1"
    by code_simp
  note t = analyzeProject_failure [where Ea = offlineEnv and Eb = secondRepoDownEnv
      and Ec = workItemsDownEnv and E = secondRepoDownEnv and p = proj1 and d = 30
      and u = "Some ''u@x.com''" and a = "''u@x.com''" and xs = "[repo1]" and r = repo2
      and rs = "[]" and ps = "[proj1]" and rng = "\<lambda>n. 0"]
  from t h1 have c1: "analyzeProject offlineEnv proj1 30 (Some ''u@x.com'') = emptyProjectMetrics"
    by blast
  from t h2 h3 h4 have c2: "analyzeProject secondRepoDownEnv proj1 30 (Some ''u@x.com'') =
       fst (analyzeRepos secondRepoDownEnv proj1 30 (Some ''u@x.com'') [repo1] emptyProjectMetrics)"
    by blast
  from t h5 h6 h7 h8 have c3: "analyzeProject workItemsDownEnv proj1 30 (Some ''u@x.com'') =
       fst (analyzeRepos workItemsDownEnv proj1 30 (Some ''u@x.com'') [repo1] emptyProjectMetrics)"
    by blast
  from t h9 obtain m where "fetchAllMetrics secondRepoDownEnv 30 (Some ''u@x.com'') (\<lambda>n. 0) = Inr m"
    and "totalCommits m = (\<Sum>q\<leftarrow>[proj1]. pm_commits (analyzeProject secondRepoDownEnv q 30 (Some ''u@x.com'')))"
    by blast
  then have c4: "\<exists>m. fetchAllMetrics secondRepoDownEnv 30 (Some ''u@x.com'') (\<lambda>n. 0) = Inr m
           \<and> totalCommits m = 1"
    by (simp add: v)
  show ?thesis
    using h1 h2 h3 h4 h5 h6 h7 h9 c1 c2 c3 c4 unfolding list_all_iff by blast
qed

text \<open>
  The claim as the specification states it fails: the commit fetch of the second
  repository throws, the \<^verbatim>\<open>catch\<close> of \<^verbatim>\<open>analyzeProject\<close> takes it, and the project
  still contributes the commit and the entry of its first repository.
\<close>

theorem analyzeProject_failure_counterexample:
  "repoFails secondRepoDownEnv proj1 30 (Some ''u@x.com'') repo2
   \<and> pm_commits (analyzeProject secondRepoDownEnv proj1 30 (Some ''u@x.com'')) = 1
   \<and> map fst (pm_repoStats (analyzeProject secondRepoDownEnv proj1 30 (Some ''u@x.com''))) = [''P1/A'']
   \<and> analyzeProject secondRepoDownEnv proj1 30 (Some ''u@x.com'') \<noteq> emptyProjectMetrics"
proof -
  have a: "repoFails secondRepoDownEnv proj1 30 (Some ''u@x.com'') repo2"
    by code_simp
  have b: "pm_commits (analyzeProject secondRepoDownEnv proj1 30 (Some ''u@x.com'')) = 1"
    by code_simp
  have c: "map fst (pm_repoStats (analyzeProject secondRepoDownEnv proj1 30 (Some ''u@x.com''))) = [''P1/A'']"
    by code_simp
  from b have "analyzeProject secondRepoDownEnv proj1 30 (Some ''u@x.com'') \<noteq> emptyProjectMetrics"
    by (auto simp: emptyProjectMetrics_def)
  with a b c show ?thesis by blast
qed

section \<open>The synthetic generators: properties\<close>

lemma mockStatsLoop_closed:
  "50 - i = n \<Longrightarrow> i \<le> 50 \<Longrightarrow>
   mockStatsLoop A B rng i stats pos =
     (stats @ map (\<lambda>j. \<lfloor>fl (rng (pos + 3 * j) * A)\<rfloor>
                        + \<lfloor>fl (fl (rng (pos + 3 * j + 1) * rng (pos + 3 * j + 2)) * B)\<rfloor>) [0..<n],
      pos + 3 * n)"
proof (induction n arbitrary: i stats pos)
  case 0
  then have "i = 50" by simp
  then show ?case by (subst mockStatsLoop.simps) simp
next
  case (Suc n)
  then have lt: "i < 50" and n: "50 - (i + 1) = n" and le: "i + 1 \<le> 50" by simp_all
  have shift: "[0..<Suc n] = 0 # map Suc [0..<n]"
    by (simp add: upt_conv_Cons map_Suc_upt del: upt_Suc)
  show ?case
    apply (subst mockStatsLoop.simps)
    apply (simp only: lt if_True Suc.IH [OF n le] shift)
    apply (simp add: comp_def add.assoc)
    done
qed

lemma generateMock_closed:
  "generateMockCommitStats rng pos =
     (map (\<lambda>j. \<lfloor>fl (rng (pos + 3 * j) * 20)\<rfloor>
                + \<lfloor>fl (fl (rng (pos + 3 * j + 1) * rng (pos + 3 * j + 2)) * 50)\<rfloor>) [0..<50],
      pos + 150)"
  "generateMockPRStats rng pos =
     (map (\<lambda>j. \<lfloor>fl (rng (pos + 3 * j) * 10)\<rfloor>
                + \<lfloor>fl (fl (rng (pos + 3 * j + 1) * rng (pos + 3 * j + 2)) * 25)\<rfloor>) [0..<50],
      pos + 150)"
  "generateMockWorkItemStats rng pos =
     (map (\<lambda>j. \<lfloor>fl (rng (pos + 3 * j) * 15)\<rfloor>
                + \<lfloor>fl (fl (rng (pos + 3 * j + 1) * rng (pos + 3 * j + 2)) * 30)\<rfloor>) [0..<50],
      pos + 150)"
  unfolding generateMockCommitStats_def generateMockPRStats_def generateMockWorkItemStats_def
  by (simp_all add: mockStatsLoop_closed [where n = 50 and i = 0] del: upt_rec_numeral)

lemma generateMock_pos:
  "snd (generateMockCommitStats rng pos) = pos + 150"
  "snd (generateMockPRStats rng pos) = pos + 150"
  "snd (generateMockWorkItemStats rng pos) = pos + 150"
  by (simp_all add: generateMock_closed)

text \<open>
  Claim C8, as the code has it. Each generator returns 50 values. With \<open>rng\<close> the stream of
  \<^verbatim>\<open>Math.random()\<close> draws and \<open>pos\<close> the place the generator starts reading, value \<open>j\<close> is
  \<open>floor(fl(U1 * A)) + floor(fl(fl(U2 * U3) * B))\<close> for the three draws at \<open>pos + 3j\<close>,
  \<open>pos + 3j + 1\<close>, \<open>pos + 3j + 2\<close>, which no other value reads, with \<open>(A, B)\<close> = (20, 50)
  for commits, (10, 25) for pull requests and (15, 30) for work items: every product is
  rounded to a double before the next operation, as the code computes it. The generator
  leaves the stream 150 draws on.
\<close>

theorem generateMockStats_spec:
  "generateMockCommitStats rng pos =
     (map (\<lambda>j. \<lfloor>fl (rng (pos + 3 * j) * 20)\<rfloor>
                + \<lfloor>fl (fl (rng (pos + 3 * j + 1) * rng (pos + 3 * j + 2)) * 50)\<rfloor>) [0..<50],
      pos + 150)
   \<and> generateMockPRStats rng pos =
     (map (\<lambda>j. \<lfloor>fl (rng (pos + 3 * j) * 10)\<rfloor>
                + \<lfloor>fl (fl (rng (pos + 3 * j + 1) * rng (pos + 3 * j + 2)) * 25)\<rfloor>) [0..<50],
      pos + 150)
   \<and> generateMockWorkItemStats rng pos =
     (map (\<lambda>j. \<lfloor>fl (rng (pos + 3 * j) * 15)\<rfloor>
                + \<lfloor>fl (fl (rng (pos + 3 * j + 1) * rng (pos + 3 * j + 2)) * 30)\<rfloor>) [0..<50],
      pos + 150)
   \<and> length (fst (generateMockCommitStats rng pos)) = 50
   \<and> length (fst (generateMockPRStats rng pos)) = 50
   \<and> length (fst (generateMockWorkItemStats rng pos)) = 50"
proof -
  have "length (fst (generateMockCommitStats rng pos)) = 50"
    "length (fst (generateMockPRStats rng pos)) = 50"
    "length (fst (generateMockWorkItemStats rng pos)) = 50"
    by (simp_all add: generateMock_closed del: upt_rec_numeral)
  then show ?thesis
    using generateMock_closed [of rng pos] by blast
qed

text \<open>
  The formula of the specification, \<open>floor(U1 * A) + floor(U2 * U3 * B)\<close> on the exact
  products, is not what the generators return. When every draw is the double nearest to
  \<open>0.7\<close>, the exact product with 20 lies just below 14 and its floor is 13, while the
  double-precision product is 14: each of the 50 commit values is 38, and the exact
  formula gives 37.
\<close>

theorem generateMockStats_counterexample:
  "fl double07 = double07 \<and> 0 \<le> double07 \<and> double07 < 1
   \<and> \<lfloor>double07 * 20\<rfloor> = 13 \<and> \<lfloor>fl (double07 * 20)\<rfloor> = 14
   \<and> fst (generateMockCommitStats (\<lambda>n. double07) 0) = replicate 50 38
   \<and> \<lfloor>double07 * 20\<rfloor> + \<lfloor>double07 * double07 * 50\<rfloor> = 37"
proof -
  have d: "fl double07 = double07 \<and> 0 \<le> double07 \<and> double07 < 1"
    by code_simp
  have a: "\<lfloor>double07 * 20\<rfloor> = 13 \<and> \<lfloor>fl (double07 * 20)\<rfloor> = 14"
    by code_simp
  have e: "\<lfloor>double07 * 20\<rfloor> + \<lfloor>double07 * double07 * 50\<rfloor> = 37"
    by code_simp
  have v: "\<lfloor>fl (double07 * 20)\<rfloor> + \<lfloor>fl (fl (double07 * double07) * 50)\<rfloor> = 38"
    by code_simp
  have "fst (generateMockCommitStats (\<lambda>n. double07) 0) = map (\<lambda>j. 38) [0..<50]"
    unfolding generateMock_closed v by simp
  also have "\<dots> = replicate 50 38"
    by (simp add: map_replicate_const del: upt_rec_numeral)
  finally show ?thesis
    using d a e by simp
qed

section \<open>The distribution sampler: properties\<close>

lemma mockOrgStats_eq:
  "mockOrgStats rng pos =
     (\<lparr>os_commits = fst (generateMockCommitStats rng pos),
       os_prs = fst (generateMockPRStats rng (pos + 150)),
       os_workItems = fst (generateMockWorkItemStats rng (pos + 300))\<rparr>, pos + 450)"
  by (simp add: mockOrgStats_def split_beta generateMock_pos add.commute)

lemma sampleRepos_fails:
  "\<exists>r \<in> set rs. repoFails E p d None r \<Longrightarrow> snd (sampleRepos E p d rs os) \<noteq> None"
proof (induction rs arbitrary: os)
  case Nil
  then show ?case by simp
next
  case (Cons x rs)
  show ?case
  proof (cases "repoFails E p d None x")
    case True
    then show ?thesis
      by (auto simp: repoFails_def isl_def Let_def split: sum.splits)
  next
    case False
    with Cons.prems have "\<exists>r \<in> set rs. repoFails E p d None r" by auto
    from Cons.IH [OF this] show ?thesis
      by (auto simp: Let_def split: sum.splits)
  qed
qed

lemma sampleRepos_ok:
  "\<forall>r \<in> set rs. \<not> repoFails E p d None r \<Longrightarrow> snd (sampleRepos E p d rs os) = None"
proof (induction rs arbitrary: os)
  case Nil
  then show ?case by simp
next
  case (Cons x rs)
  then have "\<forall>r \<in> set rs. \<not> repoFails E p d None r" and x: "\<not> repoFails E p d None x"
    by simp_all
  from Cons.IH [OF this(1)] x show ?case
    by (auto simp: repoFails_def isl_def Let_def split: sum.splits)
qed

lemma sampleRepos_workItems:
  "os_workItems (fst (sampleRepos E p d rs os)) = os_workItems os"
  by (induction rs arbitrary: os) (auto simp: Let_def split: sum.splits)

text \<open>
  Claim C4, as the code has it. The fallback is taken when a fetch throws into the
  \<^verbatim>\<open>try\<close> of \<^verbatim>\<open>getProjectOrgStats\<close> (a rejected request or a malformed body): the repository
  list, or the commits or pull requests of one of the first five repositories. Then
  all three lists of the project are the generators' values and nothing else, whatever had
  been gathered before: the commit values from the draws at \<open>pos\<close>, the pull-request values
  from the next 150 draws, the work-item values from the 150 after those. When nothing
  throws, which includes every fetch answered with a status outside 2xx, the commit and
  pull-request lists are the live ones and only the work-item list is generated.
\<close>

theorem getProjectOrgStats_fallback:
  "(isl (getRepositories Ea (project_id p)) \<longrightarrow>
      getProjectOrgStats Ea p d rng pos = mockOrgStats rng pos)
   \<and> (getRepositories Eb (project_id p) = Inr repos
        \<and> (\<exists>r \<in> set (take 5 repos). repoFails Eb p d None r) \<longrightarrow>
      getProjectOrgStats Eb p d rng pos = mockOrgStats rng pos)
   \<and> mockOrgStats rng pos =
       (\<lparr>os_commits = fst (generateMockCommitStats rng pos),
         os_prs = fst (generateMockPRStats rng (pos + 150)),
         os_workItems = fst (generateMockWorkItemStats rng (pos + 300))\<rparr>, pos + 450)
   \<and> (getRepositories Ec (project_id p) = Inr repos'
        \<and> (\<forall>r \<in> set (take 5 repos'). \<not> repoFails Ec p d None r) \<longrightarrow>
      getProjectOrgStats Ec p d rng pos =
        ((fst (sampleRepos Ec p d (take 5 repos')
                 \<lparr>os_commits = [], os_prs = [], os_workItems = []\<rparr>))
           \<lparr>os_workItems := fst (generateMockWorkItemStats rng pos)\<rparr>, pos + 150))"
proof (intro conjI impI)
  assume "isl (getRepositories Ea (project_id p))"
  then show "getProjectOrgStats Ea p d rng pos = mockOrgStats rng pos"
    by (auto simp: getProjectOrgStats_def isl_def)
next
  assume h: "getRepositories Eb (project_id p) = Inr repos
        \<and> (\<exists>r \<in> set (take 5 repos). repoFails Eb p d None r)"
  then have "snd (sampleRepos Eb p d (take 5 repos)
      \<lparr>os_commits = [], os_prs = [], os_workItems = []\<rparr>) \<noteq> None"
    using sampleRepos_fails by blast
  with h show "getProjectOrgStats Eb p d rng pos = mockOrgStats rng pos"
    by (auto simp: getProjectOrgStats_def split: prod.splits option.splits)
next
  show "mockOrgStats rng pos =
       (\<lparr>os_commits = fst (generateMockCommitStats rng pos),
         os_prs = fst (generateMockPRStats rng (pos + 150)),
         os_workItems = fst (generateMockWorkItemStats rng (pos + 300))\<rparr>, pos + 450)"
    by (rule mockOrgStats_eq)
next
  assume h: "getRepositories Ec (project_id p) = Inr repos'
        \<and> (\<forall>r \<in> set (take 5 repos'). \<not> repoFails Ec p d None r)"
  then have s: "snd (sampleRepos Ec p d (take 5 repos')
      \<lparr>os_commits = [], os_prs = [], os_workItems = []\<rparr>) = None"
    using sampleRepos_ok by blast
  from h s show "getProjectOrgStats Ec p d rng pos =
        ((fst (sampleRepos Ec p d (take 5 repos')
                 \<lparr>os_commits = [], os_prs = [], os_workItems = []\<rparr>))
           \<lparr>os_workItems := fst (generateMockWorkItemStats rng pos)\<rparr>, pos + 150)"
    using sampleRepos_workItems [of Ec p d "take 5 repos'"
        "\<lparr>os_commits = [], os_prs = [], os_workItems = []\<rparr>"]
    by (auto simp: getProjectOrgStats_def split_beta generateMock_pos
        split: prod.splits option.splits)
qed

theorem getProjectOrgStats_fallback_witness:
  "isl (getRepositories offlineEnv (project_id proj1))
   \<and> getProjectOrgStats offlineEnv proj1 30 (\<lambda>n. 0) 0 = mockOrgStats (\<lambda>n. 0) 0
   \<and> getRepositories secondRepoDownEnv (project_id proj1) = Inr [repo1, repo2]
   \<and> list_ex (\<lambda>r. repoFails secondRepoDownEnv proj1 30 None r) (take 5 [repo1, repo2])
   \<and> os_commits (fst (sampleRepos secondRepoDownEnv proj1 30 (take 5 [repo1, repo2])
         \<lparr>os_commits = [], os_prs = [], os_workItems = []\<rparr>)) = [1]
   \<and> getProjectOrgStats secondRepoDownEnv proj1 30 (\<lambda>n. 0) 0 = mockOrgStats (\<lambda>n. 0) 0
   \<and> getRepositories workItemsDownEnv (project_id proj1) = Inr [repo1]
   \<and> list_all (\<lambda>r. \<not> repoFails workItemsDownEnv proj1 30 None r) (take 5 [repo1])
   \<and> getProjectOrgStats workItemsDownEnv proj1 30 (\<lambda>n. 0) 0 =
        ((fst (sampleRepos workItemsDownEnv proj1 30 (take 5 [repo1])
                 \<lparr>os_commits = [], os_prs = [], os_workItems = []\<rparr>))
           \<lparr>os_workItems := fst (generateMockWorkItemStats (\<lambda>n. 0) 0)\<rparr>, 0 + 150)"
proof -
  have h1: "isl (getRepositories offlineEnv (project_id proj1))"
    by code_simp
  have h2: "getRepositories secondRepoDownEnv (project_id proj1) = Inr [repo1, repo2]"
    by code_simp
  have h3: "\<exists>r \<in> set (take 5 [repo1, repo2]). repoFails secondRepoDownEnv proj1 30 None r"
    by code_simp
  have h4: "getRepositories workItemsDownEnv (project_id proj1) = Inr [repo1]"
    by code_simp
  have h5: "\<forall>r \<in> set (take 5 [repo1]). \<not> repoFails workItemsDownEnv proj1 30 None r"
    by code_simp
  have v: "os_commits (fst (sampleRepos secondRepoDownEnv proj1 30 (take 5 [repo1, repo2])
         \<lparr>os_commits = [], os_prs = [], os_workItems = []\<rparr>)) = [1]"
    by code_simp
  note t = getProjectOrgStats_fallback [where Ea = offlineEnv and Eb = secondRepoDownEnv
      and Ec = workItemsDownEnv and p = proj1 and d = 30 and rng = "\<lambda>n. 0" and pos = 0
      and repos = "[repo1, repo2]" and repos' = "[repo1]"]
  from t h1 have c1: "getProjectOrgStats offlineEnv proj1 30 (\<lambda>n. 0) 0 = mockOrgStats (\<lambda>n. 0) 0"
    by blast
  from t h2 h3 have c2: "getProjectOrgStats secondRepoDownEnv proj1 30 (\<lambda>n. 0) 0 = mockOrgStats (\<lambda>n. 0) 0"
    by blast
  from t h4 h5 have c3: "getProjectOrgStats workItemsDownEnv proj1 30 (\<lambda>n. 0) 0 =
        ((fst (sampleRepos workItemsDownEnv proj1 30 (take 5 [repo1])
                 \<lparr>os_commits = [], os_prs = [], os_workItems = []\<rparr>))
           \<lparr>os_workItems := fst (generateMockWorkItemStats (\<lambda>n. 0) 0)\<rparr>, 0 + 150)"
    by blast
  show ?thesis
    using h1 h2 h3 h4 h5 v c1 c2 c3 unfolding list_all_iff list_ex_iff by blast
qed

text \<open>
  The claim as the specification states it, fallback on any fetch failure during sampling,
  fails for a fetch that is answered with a status outside 2xx. The commit request of the
  second sampled repository gets a 404: the sub-fetch returns the empty list, nothing is
  thrown, and the project contributes the live commit count of the first repository
  beside generated work-item values; its lists are not the generators' lists.
\<close>

theorem getProjectOrgStats_fallback_counterexample:
  "getRepositories repo404Env (project_id proj1) = Inr [repo1, repo2]
   \<and> fetchCommits repo404Env (commitsUrl repo404Env (project_id proj1) (repo_id repo2) 30)
       = Response False ''Not Found'' Malformed
   \<and> getCommits repo404Env (project_id proj1) (repo_id repo2) None 30 = Inr []
   \<and> fst (getProjectOrgStats repo404Env proj1 30 (\<lambda>n. 0) 0) =
       \<lparr>os_commits = [1], os_prs = [],
        os_workItems = fst (generateMockWorkItemStats (\<lambda>n. 0) 0)\<rparr>
   \<and> os_commits (fst (mockOrgStats (\<lambda>n. 0) 0)) = replicate 50 0
   \<and> getProjectOrgStats repo404Env proj1 30 (\<lambda>n. 0) 0 \<noteq> mockOrgStats (\<lambda>n. 0) 0"
proof -
  have r: "getRepositories repo404Env (project_id proj1) = Inr [repo1, repo2]"
    by code_simp
  have f: "fetchCommits repo404Env (commitsUrl repo404Env (project_id proj1) (repo_id repo2) 30)
       = Response False ''Not Found'' Malformed"
    by code_simp
  have c: "getCommits repo404Env (project_id proj1) (repo_id repo2) None 30 = Inr []"
    by code_simp
  have g: "fst (getProjectOrgStats repo404Env proj1 30 (\<lambda>n. 0) 0) =
       \<lparr>os_commits = [1], os_prs = [],
        os_workItems = fst (generateMockWorkItemStats (\<lambda>n. 0) 0)\<rparr>"
    by code_simp
  have m: "os_commits (fst (mockOrgStats (\<lambda>n. 0) 0)) = replicate 50 0"
    by code_simp
  have n: "getProjectOrgStats repo404Env proj1 30 (\<lambda>n. 0) 0 \<noteq> mockOrgStats (\<lambda>n. 0) 0"
  proof
    assume "getProjectOrgStats repo404Env proj1 30 (\<lambda>n. 0) 0 = mockOrgStats (\<lambda>n. 0) 0"
    then have "os_commits (fst (getProjectOrgStats repo404Env proj1 30 (\<lambda>n. 0) 0))
        = os_commits (fst (mockOrgStats (\<lambda>n. 0) 0))"
      by simp
    then have "[1] = replicate 50 (0::int)"
      unfolding g m by simp
    then have "length [1::int] = length (replicate 50 (0::int))"
      by (rule arg_cong)
    then show False
      by simp
  qed
  show ?thesis
    by (intro conjI) (rule r f c g m n)+
qed

section \<open>The lookback window: properties\<close>

lemma getPullRequests_days:
  "getPullRequests E pid rid d1 = getPullRequests E pid rid d2"
  by (simp add: getPullRequests_def)

lemma analyzeRepos_days:
  "(\<forall>pid rid w. getCommits E pid rid w d1 = getCommits E pid rid w d2) \<Longrightarrow>
     analyzeRepos E p d1 u rs pm = analyzeRepos E p d2 u rs pm"
  by (induction rs arbitrary: pm)
    (simp_all add: getPullRequests_days [of E _ _ d1 d2] Let_def split: sum.splits)

lemma sampleRepos_days:
  "(\<forall>pid rid w. getCommits E pid rid w d1 = getCommits E pid rid w d2) \<Longrightarrow>
     sampleRepos E p d1 rs os = sampleRepos E p d2 rs os"
  by (induction rs arbitrary: os)
    (simp_all add: getPullRequests_days [of E _ _ d1 d2] Let_def split: sum.splits)

lemma analyzeProject_days:
  assumes "\<forall>pid rid w. getCommits E pid rid w d1 = getCommits E pid rid w d2"
    and "\<forall>pid a. getWorkItems E pid a d1 = getWorkItems E pid a d2"
  shows "analyzeProject E p d1 u = analyzeProject E p d2 u"
  using assms(2)
  by (simp add: analyzeProject_def analyzeRepos_days [OF assms(1)]
      split: sum.splits prod.splits option.splits)

lemma getProjectOrgStats_days:
  assumes "\<forall>pid rid w. getCommits E pid rid w d1 = getCommits E pid rid w d2"
  shows "getProjectOrgStats E p d1 rng pos = getProjectOrgStats E p d2 rng pos"
  by (simp add: getProjectOrgStats_def sampleRepos_days [OF assms]
      split: sum.splits prod.splits option.splits)

lemma projectsLoop_days:
  assumes "\<forall>pid rid w. getCommits E pid rid w d1 = getCommits E pid rid w d2"
    and "\<forall>pid a. getWorkItems E pid a d1 = getWorkItems E pid a d2"
  shows "projectsLoop E d1 u rng ps m pos = projectsLoop E d2 u rng ps m pos"
  by (induction ps arbitrary: m pos)
    (simp_all add: analyzeProject_days [OF assms] getProjectOrgStats_days [OF assms(1)]
      split: prod.splits)

text \<open>
  Claim C10. The pull-request request does not depend on the clock, and the pull-request
  fetch returns the same list for any two lookbacks. With the responses to the commit
  and work-item requests of the two lookbacks the same, the whole analysis is the same
  for both: per project the counts and the \<^verbatim>\<open>repoStats\<close> entries (and so which repositories
  are active), the distribution contributions, and the snapshot.
\<close>

theorem pullRequests_ignore_lookback:
  "pullRequestsUrl (E\<lparr>sinceDateISO := clock\<rparr>) pid rid = pullRequestsUrl E pid rid
   \<and> getPullRequests (E\<lparr>sinceDateISO := clock\<rparr>) pid rid d1 = getPullRequests E pid rid d2
   \<and> ((\<forall>pid rid w. getCommits E pid rid w d1 = getCommits E pid rid w d2)
        \<and> (\<forall>pid a. getWorkItems E pid a d1 = getWorkItems E pid a d2) \<longrightarrow>
        analyzeProject E p d1 u = analyzeProject E p d2 u
        \<and> getProjectOrgStats E p d1 rng pos = getProjectOrgStats E p d2 rng pos
        \<and> fetchAllMetrics E d1 u rng = fetchAllMetrics E d2 u rng)"
proof (intro conjI impI)
  show "pullRequestsUrl (E\<lparr>sinceDateISO := clock\<rparr>) pid rid = pullRequestsUrl E pid rid"
    by (simp add: pullRequestsUrl_def)
  then show "getPullRequests (E\<lparr>sinceDateISO := clock\<rparr>) pid rid d1 = getPullRequests E pid rid d2"
    by (simp add: getPullRequests_def)
next
  assume h: "(\<forall>pid rid w. getCommits E pid rid w d1 = getCommits E pid rid w d2)
        \<and> (\<forall>pid a. getWorkItems E pid a d1 = getWorkItems E pid a d2)"
  then have c: "\<forall>pid rid w. getCommits E pid rid w d1 = getCommits E pid rid w d2"
    and w: "\<forall>pid a. getWorkItems E pid a d1 = getWorkItems E pid a d2"
    by simp_all
  show "analyzeProject E p d1 u = analyzeProject E p d2 u"
    by (rule analyzeProject_days [OF c w])
  show "getProjectOrgStats E p d1 rng pos = getProjectOrgStats E p d2 rng pos"
    by (rule getProjectOrgStats_days [OF c])
  show "fetchAllMetrics E d1 u rng = fetchAllMetrics E d2 u rng"
    by (simp add: fetchAllMetrics_def projectsLoop_days [OF c w] split: sum.splits)
qed

theorem pullRequests_ignore_lookback_witness:
  "(\<forall>pid rid w. getCommits workItemsDownEnv pid rid w 30 = getCommits workItemsDownEnv pid rid w 90)
   \<and> (\<forall>pid a. getWorkItems workItemsDownEnv pid a 30 = getWorkItems workItemsDownEnv pid a 90)
   \<and> commitsUrl workItemsDownEnv ''p1'' ''r1'' 30 \<noteq> commitsUrl workItemsDownEnv ''p1'' ''r1'' 90
   \<and> analyzeProject workItemsDownEnv proj1 30 (Some ''u@x.com'')
       = analyzeProject workItemsDownEnv proj1 90 (Some ''u@x.com'')
   \<and> getProjectOrgStats workItemsDownEnv proj1 30 (\<lambda>n. 0) 0
       = getProjectOrgStats workItemsDownEnv proj1 90 (\<lambda>n. 0) 0
   \<and> fetchAllMetrics workItemsDownEnv 30 (Some ''u@x.com'') (\<lambda>n. 0)
       = fetchAllMetrics workItemsDownEnv 90 (Some ''u@x.com'') (\<lambda>n. 0)"
proof -
  have c: "\<forall>pid rid w. getCommits workItemsDownEnv pid rid w 30 = getCommits workItemsDownEnv pid rid w 90"
    by (simp add: getCommits_def workItemsDownEnv_def constEnv_def)
  have w: "\<forall>pid a. getWorkItems workItemsDownEnv pid a 30 = getWorkItems workItemsDownEnv pid a 90"
    by (simp add: getWorkItems_def workItemsDownEnv_def constEnv_def)
  have u: "commitsUrl workItemsDownEnv ''p1'' ''r1'' 30 \<noteq> commitsUrl workItemsDownEnv ''p1'' ''r1'' 90"
    by (simp add: commitsUrl_def workItemsDownEnv_def constEnv_def)
  show ?thesis
    using pullRequests_ignore_lookback [where E = workItemsDownEnv and ?d1.0 = 30 and ?d2.0 = 90
        and p = proj1 and u = "Some ''u@x.com''" and rng = "\<lambda>n. 0" and pos = 0] c w u
    by blast
qed

section \<open>Active repositories: properties\<close>

lemma update_fresh: "k \<notin> fst ` set al \<Longrightarrow> AList.update k v al = al @ [(k, v)]"
  by (induction al) auto

lemma mergeRepoStats_Nil: "mergeRepoStats [] m = m"
  by (simp add: mergeRepoStats_def)

lemma mergeRepoStats_Cons:
  "mergeRepoStats ((k, st) # stats) m =
     mergeRepoStats stats
       (if isActive st
        then m\<lparr>activeRepos := activeRepos m + 1, repoStats := AList.update k st (repoStats m)\<rparr>
        else m)"
  by (simp add: mergeRepoStats_def)

lemma mergeRepoStats_activeRepos:
  "activeRepos (mergeRepoStats stats m) =
     activeRepos m + int (length (filter (\<lambda>(k, st). isActive st) stats))"
proof (induction stats arbitrary: m)
  case Nil
  then show ?case by (simp add: mergeRepoStats_Nil)
next
  case (Cons x stats)
  obtain k st where x: "x = (k, st)" by (cases x)
  show ?case
    by (simp add: x mergeRepoStats_Cons Cons.IH)
qed

lemma mergeRepoStats_repoStats:
  "distinct (map fst (repoStats m) @ map fst stats) \<Longrightarrow>
     repoStats (mergeRepoStats stats m) = repoStats m @ filter (\<lambda>(k, st). isActive st) stats"
proof (induction stats arbitrary: m)
  case Nil
  then show ?case by (simp add: mergeRepoStats_Nil)
next
  case (Cons x stats)
  obtain k st where x: "x = (k, st)" by (cases x)
  from Cons.prems have fresh: "k \<notin> fst ` set (repoStats m)"
    and d: "distinct (map fst (repoStats m) @ map fst stats)"
    and d': "distinct (map fst (repoStats m @ [(k, st)]) @ map fst stats)"
    by (auto simp: x)
  show ?case
  proof (cases "isActive st")
    case True
    let ?m = "m\<lparr>activeRepos := activeRepos m + 1, repoStats := AList.update k st (repoStats m)\<rparr>"
    have r: "repoStats ?m = repoStats m @ [(k, st)]"
      by (simp add: update_fresh [OF fresh])
    have "distinct (map fst (repoStats ?m) @ map fst stats)"
      using d' by (simp only: r)
    from Cons.IH [OF this] show ?thesis
      by (simp add: x mergeRepoStats_Cons True r)
  next
    case False
    with Cons.IH [OF d] show ?thesis
      by (simp add: x mergeRepoStats_Cons)
  qed
qed

lemma addProject_activeRepos:
  "activeRepos (addProject name pm os m) =
     activeRepos m + int (length (filter (\<lambda>(k, st). isActive st) (pm_repoStats pm)))"
  by (simp add: addProject_def Let_def mergeRepoStats_activeRepos)

lemma addProject_repoStats:
  "distinct (map fst (repoStats m) @ map fst (pm_repoStats pm)) \<Longrightarrow>
     repoStats (addProject name pm os m) =
       repoStats m @ filter (\<lambda>(k, st). isActive st) (pm_repoStats pm)"
  by (simp add: addProject_def Let_def mergeRepoStats_repoStats)

lemma projectsLoop_activeRepos:
  "activeRepos (fst (projectsLoop E d u rng ps m pos)) =
     activeRepos m + int (length (filter (\<lambda>(k, st). isActive st)
        (concat (map (\<lambda>p. pm_repoStats (analyzeProject E p d u)) ps))))"
  by (induction ps arbitrary: m pos) (simp_all add: addProject_activeRepos split: prod.splits)

lemma distinct_keys_filter:
  "distinct (xs @ map fst ys @ zs) \<Longrightarrow> distinct (xs @ map fst (filter P ys) @ zs)"
  by (auto simp: distinct_map_filter)

lemma projectsLoop_repoStats:
  "distinct (map fst (repoStats m)
      @ concat (map (\<lambda>p. map fst (pm_repoStats (analyzeProject E p d u))) ps)) \<Longrightarrow>
   repoStats (fst (projectsLoop E d u rng ps m pos)) =
     repoStats m @ filter (\<lambda>(k, st). isActive st)
        (concat (map (\<lambda>p. pm_repoStats (analyzeProject E p d u)) ps))"
proof (induction ps arbitrary: m pos)
  case Nil
  then show ?case by simp
next
  case (Cons q ps)
  let ?pm = "analyzeProject E q d u"
  let ?rest = "concat (map (\<lambda>p. map fst (pm_repoStats (analyzeProject E p d u))) ps)"
  obtain os pos1 where g: "getProjectOrgStats E q d rng pos = (os, pos1)"
    by (cases "getProjectOrgStats E q d rng pos")
  let ?m = "addProject (project_name q) ?pm os m"
  from Cons.prems have d0: "distinct (map fst (repoStats m) @ map fst (pm_repoStats ?pm) @ ?rest)"
    by simp
  then have d1: "distinct (map fst (repoStats m) @ map fst (pm_repoStats ?pm))"
    by auto
  have r: "repoStats ?m = repoStats m @ filter (\<lambda>(k, st). isActive st) (pm_repoStats ?pm)"
    by (rule addProject_repoStats [OF d1])
  have "distinct (map fst (repoStats m)
      @ map fst (filter (\<lambda>(k, st). isActive st) (pm_repoStats ?pm)) @ ?rest)"
    by (rule distinct_keys_filter [OF d0])
  then have "distinct (map fst (repoStats ?m) @ ?rest)"
    by (simp add: r)
  from Cons.IH [OF this] show ?case
    by (simp add: g r)
qed

text \<open>
  Claim C6. The count \<^verbatim>\<open>activeRepos\<close> of a snapshot is the number of \<^verbatim>\<open>repoStats\<close> entries
  of its projects with \<open>commits > 0\<close> or \<open>prs > 0\<close>: a repository is counted as active iff
  it has commits or pull requests. With the keys \<^verbatim>\<open>project/repo\<close> of the data model, where
  no key comes from two projects, the \<^verbatim>\<open>repoStats\<close> of the snapshot holds exactly those
  entries, and \<^verbatim>\<open>activeRepos\<close> is the number of its entries with \<open>commits > 0\<close> or
  \<open>prs > 0\<close>.
\<close>

theorem activeRepos_count:
  "getProjects E = Inr ps \<and> fetchAllMetrics E d u rng = Inr m \<longrightarrow>
     activeRepos m =
       int (length (filter (\<lambda>(k, st). rs_commits st > 0 \<or> rs_prs st > 0)
         (concat (map (\<lambda>p. pm_repoStats (analyzeProject E p d u)) ps))))
     \<and> (distinct (concat (map (\<lambda>p. map fst (pm_repoStats (analyzeProject E p d u))) ps)) \<longrightarrow>
          repoStats m =
            filter (\<lambda>(k, st). rs_commits st > 0 \<or> rs_prs st > 0)
              (concat (map (\<lambda>p. pm_repoStats (analyzeProject E p d u)) ps))
          \<and> activeRepos m =
              int (length (filter (\<lambda>(k, st). rs_commits st > 0 \<or> rs_prs st > 0) (repoStats m))))"
proof (intro impI)
  assume h: "getProjects E = Inr ps \<and> fetchAllMetrics E d u rng = Inr m"
  obtain m0 pos where l: "projectsLoop E d u rng ps emptyMetrics 0 = (m0, pos)"
    by (cases "projectsLoop E d u rng ps emptyMetrics 0")
  have m0: "m0 = fst (projectsLoop E d u rng ps emptyMetrics 0)"
    by (simp add: l)
  from h l have m: "m = m0\<lparr>m_percentiles := Some (calculatePercentiles m0 u)\<rparr>"
    by (auto simp: fetchAllMetrics_def)
  let ?all = "concat (map (\<lambda>p. pm_repoStats (analyzeProject E p d u)) ps)"
  have a: "activeRepos m = int (length (filter (\<lambda>(k, st). isActive st) ?all))"
    by (simp add: m m0 projectsLoop_activeRepos emptyMetrics_def)
  have r: "repoStats m = filter (\<lambda>(k, st). isActive st) ?all"
    if "distinct (concat (map (\<lambda>p. map fst (pm_repoStats (analyzeProject E p d u))) ps))"
    using projectsLoop_repoStats [of emptyMetrics E d u ps rng 0] that
    by (simp add: m m0 emptyMetrics_def)
  show "activeRepos m =
       int (length (filter (\<lambda>(k, st). rs_commits st > 0 \<or> rs_prs st > 0) ?all))
     \<and> (distinct (concat (map (\<lambda>p. map fst (pm_repoStats (analyzeProject E p d u))) ps)) \<longrightarrow>
          repoStats m = filter (\<lambda>(k, st). rs_commits st > 0 \<or> rs_prs st > 0) ?all
          \<and> activeRepos m =
              int (length (filter (\<lambda>(k, st). rs_commits st > 0 \<or> rs_prs st > 0) (repoStats m))))"
    using a r unfolding isActive_def by simp
qed

lemma fetchAllMetrics_returns:
  "getProjects E = Inr ps \<Longrightarrow> \<exists>m. fetchAllMetrics E d u rng = Inr m"
  by (auto simp: fetchAllMetrics_def split: prod.splits)

theorem activeRepos_count_witness:
  "getProjects twoProjectsEnv = Inr [proj1, projA]
   \<and> distinct (concat (map (\<lambda>p. map fst (pm_repoStats (analyzeProject twoProjectsEnv p 30 None)))
        [proj1, projA]))
   \<and> (\<exists>m. fetchAllMetrics twoProjectsEnv 30 None (\<lambda>n. 0) = Inr m
        \<and> map fst (repoStats m) = [''P1/A'', ''P1/B'', ''P/A'', ''P/B'']
        \<and> activeRepos m = 4
        \<and> activeRepos m =
            int (length (filter (\<lambda>(k, st). rs_commits st > 0 \<or> rs_prs st > 0) (repoStats m))))"
proof -
  have g: "getProjects twoProjectsEnv = Inr [proj1, projA]"
    by code_simp
  have d: "distinct (concat (map (\<lambda>p. map fst (pm_repoStats (analyzeProject twoProjectsEnv p 30 None)))
        [proj1, projA]))"
    by code_simp
  have v: "(case fetchAllMetrics twoProjectsEnv 30 None (\<lambda>n. 0) of
      Inl e \<Rightarrow> None
    | Inr m \<Rightarrow> Some (activeRepos m, map fst (repoStats m)))
      = Some (4, [''P1/A'', ''P1/B'', ''P/A'', ''P/B''])"
    by code_simp
  from fetchAllMetrics_returns [OF g] obtain m
    where m: "fetchAllMetrics twoProjectsEnv 30 None (\<lambda>n. 0) = Inr m"
    by blast
  from v m have v': "activeRepos m = 4" "map fst (repoStats m) = [''P1/A'', ''P1/B'', ''P/A'', ''P/B'']"
    by simp_all
  from activeRepos_count [where E = twoProjectsEnv and ps = "[proj1, projA]" and d = 30
      and u = None and rng = "\<lambda>n. 0" and m = m] g m d
  have c: "activeRepos m =
      int (length (filter (\<lambda>(k, st). rs_commits st > 0 \<or> rs_prs st > 0) (repoStats m)))"
    by blast
  show ?thesis
    by (intro conjI exI [of _ m]) (rule g d m v' c)+
qed

section \<open>Double-precision arithmetic: properties\<close>

lemma roundHalfEven_bounds:
  "of_int (roundHalfEven s) \<le> s + 1 / 2" "s - 1 / 2 \<le> of_int (roundHalfEven s)"
  unfolding roundHalfEven_def Let_def by (auto; linarith)+

lemma roundHalfEven_of_int: "roundHalfEven (of_int k) = k"
  by (simp add: roundHalfEven_def)

lemma roundHalfEven_floor: "\<lfloor>s\<rfloor> \<le> roundHalfEven s" "roundHalfEven s \<le> \<lfloor>s\<rfloor> + 1"
  unfolding roundHalfEven_def Let_def by auto

lemma roundHalfEven_mono: "s \<le> t \<Longrightarrow> roundHalfEven s \<le> roundHalfEven t"
proof -
  assume st: "s \<le> t"
  then have f: "\<lfloor>s\<rfloor> \<le> \<lfloor>t\<rfloor>" by (rule floor_mono)
  show ?thesis
  proof (cases "\<lfloor>s\<rfloor> = \<lfloor>t\<rfloor>")
    case True
    with st have "s - of_int \<lfloor>s\<rfloor> \<le> t - of_int \<lfloor>t\<rfloor>" by simp
    with True show ?thesis
      unfolding roundHalfEven_def Let_def by auto
  next
    case False
    with f have "\<lfloor>s\<rfloor> + 1 \<le> \<lfloor>t\<rfloor>" by simp
    with roundHalfEven_floor(2) [of s] roundHalfEven_floor(1) [of t] show ?thesis by linarith
  qed
qed

lemma roundHalfEven_ge: "of_int k \<le> s \<Longrightarrow> k \<le> roundHalfEven s"
  using roundHalfEven_mono [of "of_int k" s] by (simp add: roundHalfEven_of_int)

lemma roundHalfEven_le: "s \<le> of_int k \<Longrightarrow> roundHalfEven s \<le> k"
  using roundHalfEven_mono [of s "of_int k"] by (simp add: roundHalfEven_of_int)

lemma expo_bounds:
  assumes "0 < x"
  shows "2 powi (expo x) \<le> x" and "x < 2 powi (expo x + 1)"
proof -
  obtain p q where pq: "quotient_of x = (p, q)" by (cases "quotient_of x")
  then have q: "0 < q" and x: "x = of_int p / of_int q"
    by (simp_all add: quotient_of_denom_pos quotient_of_div)
  with assms have p: "0 < p"
    by (simp add: zero_less_divide_iff)
  let ?d = "bitlen p - bitlen q"
  have e: "expo x = (if 2 powi ?d \<le> x then ?d else ?d - 1)"
    by (simp add: expo_def pq Let_def)
  have bp: "bitlen p \<ge> 1" and bq: "bitlen q \<ge> 1"
    using p q by (simp_all add: bitlen_alt_def)
  have pl: "(2::rat) powi (bitlen p - 1) \<le> of_int p" and pu: "of_int p < (2::rat) powi (bitlen p)"
    and ql: "(2::rat) powi (bitlen q - 1) \<le> of_int q" and qu: "of_int q < (2::rat) powi (bitlen q)"
  proof -
    have b: "0 < a \<Longrightarrow> (2::rat) powi (bitlen a - 1) \<le> of_int a \<and> of_int a < (2::rat) powi (bitlen a)" for a
    proof -
      assume a: "0 < a"
      then have "bitlen a \<ge> 1" by (simp add: bitlen_alt_def)
      then have n: "(2::rat) powi (bitlen a - 1) = 2 ^ nat (bitlen a - 1)"
        "(2::rat) powi (bitlen a) = 2 ^ nat (bitlen a)"
        by (simp_all add: power_int_nonneg_exp)
      from bitlen_bounds [OF a] have "(2::int) ^ nat (bitlen a - 1) \<le> a" "a < 2 ^ nat (bitlen a)"
        by simp_all
      then have "(of_int (2 ^ nat (bitlen a - 1)) :: rat) \<le> of_int a"
        "(of_int a :: rat) < of_int (2 ^ nat (bitlen a))"
        by (simp_all only: of_int_le_iff of_int_less_iff)
      then show ?thesis
        by (simp add: n)
    qed
    from b [OF p] b [OF q] show "(2::rat) powi (bitlen p - 1) \<le> of_int p" "of_int p < (2::rat) powi (bitlen p)"
      "(2::rat) powi (bitlen q - 1) \<le> of_int q" "of_int q < (2::rat) powi (bitlen q)"
      by simp_all
  qed
  have qpos: "(0::rat) < of_int q" using q by simp
  have low: "(2::rat) powi (?d - 1) \<le> x"
  proof -
    have "(2::rat) powi (?d - 1) * of_int q \<le> 2 powi (?d - 1) * 2 powi (bitlen q)"
      using qu by (intro mult_left_mono) simp_all
    also have "\<dots> = 2 powi (bitlen p - 1)"
      by (simp add: power_int_add [symmetric])
    also have "\<dots> \<le> of_int p" by (rule pl)
    finally show ?thesis
      using qpos by (simp add: x pos_le_divide_eq)
  qed
  have high: "x < (2::rat) powi (?d + 1)"
  proof -
    have "of_int p < (2::rat) powi (bitlen p)" by (rule pu)
    also have "\<dots> = 2 powi (?d + 1) * 2 powi (bitlen q - 1)"
      by (simp add: power_int_add [symmetric])
    also have "\<dots> \<le> 2 powi (?d + 1) * of_int q"
      using ql by (intro mult_left_mono) simp_all
    finally show ?thesis
      using qpos by (simp add: x pos_divide_less_eq)
  qed
  show "2 powi (expo x) \<le> x"
    using low by (simp add: e)
  show "x < 2 powi (expo x + 1)"
    using high by (auto simp: e not_le)
qed


lemma fl_zero: "fl 0 = 0"
  by (simp add: fl_def)

lemma fl_pos_eq:
  "0 < x \<Longrightarrow> fl x = of_int (roundHalfEven (x * 2 powi (52 - expo x))) * 2 powi (expo x - 52)"
  by (simp add: fl_def Let_def)

lemma scaled_bounds:
  assumes "0 < x"
  shows "2 ^ 52 \<le> x * 2 powi (52 - expo x)" and "x * 2 powi (52 - expo x) < 2 ^ 53"
proof -
  have "(2::rat) ^ 52 = 2 powi (expo x) * 2 powi (52 - expo x)"
    by (simp add: power_int_add [symmetric])
  also have "\<dots> \<le> x * 2 powi (52 - expo x)"
    using expo_bounds(1) [OF assms] by (intro mult_right_mono) simp_all
  finally show "2 ^ 52 \<le> x * 2 powi (52 - expo x)" .
  have "x * 2 powi (52 - expo x) < 2 powi (expo x + 1) * 2 powi (52 - expo x)"
    using expo_bounds(2) [OF assms] by (intro mult_strict_right_mono) simp_all
  also have "\<dots> = 2 ^ 53"
    by (simp add: power_int_add [symmetric])
  finally show "x * 2 powi (52 - expo x) < 2 ^ 53" .
qed

lemma scale_back: "x * 2 powi (52 - e) * 2 powi (e - 52) = (x::rat)"
proof -
  have "(2::rat) powi (52 - e) * 2 powi (e - 52) = 1"
    by (simp add: power_int_add [symmetric])
  then show ?thesis by (simp add: mult.assoc)
qed

lemma fl_bounds:
  assumes "0 < x"
  shows "2 powi (expo x) \<le> fl x" and "fl x \<le> 2 powi (expo x + 1)"
proof -
  let ?s = "x * 2 powi (52 - expo x)"
  have "(2::int) ^ 52 \<le> roundHalfEven ?s"
    using scaled_bounds(1) [OF assms] by (intro roundHalfEven_ge) simp
  then have "(of_int (2 ^ 52) :: rat) \<le> of_int (roundHalfEven ?s)"
    by (simp only: of_int_le_iff)
  then have "(2::rat) ^ 52 * 2 powi (expo x - 52) \<le> fl x"
    unfolding fl_pos_eq [OF assms] by (intro mult_right_mono) simp_all
  moreover have "(2::rat) ^ 52 * 2 powi (expo x - 52) = 2 powi (expo x)"
    using scale_back [of "2 powi (expo x)" "expo x"] by (simp add: power_int_add [symmetric])
  ultimately show "2 powi (expo x) \<le> fl x" by simp
  have "roundHalfEven ?s \<le> (2::int) ^ 53"
    using scaled_bounds(2) [OF assms] by (intro roundHalfEven_le) simp
  then have "(of_int (roundHalfEven ?s) :: rat) \<le> of_int (2 ^ 53)"
    by (simp only: of_int_le_iff)
  then have "fl x \<le> (2::rat) ^ 53 * 2 powi (expo x - 52)"
    unfolding fl_pos_eq [OF assms] by (intro mult_right_mono) simp_all
  moreover have "(2::rat) ^ 53 * 2 powi (expo x - 52) = 2 powi (expo x + 1)"
  proof -
    have "(2::rat) powi 53 * 2 powi (expo x - 52) = 2 powi (53 + (expo x - 52))"
      by (rule power_int_add [symmetric]) simp
    then show ?thesis by (simp add: add.commute)
  qed
  ultimately show "fl x \<le> 2 powi (expo x + 1)" by simp
qed

lemma fl_error:
  assumes "0 < x"
  shows "\<bar>fl x - x\<bar> \<le> x / 2 ^ 53"
proof -
  let ?s = "x * 2 powi (52 - expo x)"
  let ?w = "(2::rat) powi (expo x - 52)"
  let ?m = "of_int (roundHalfEven ?s) :: rat"
  have w: "0 < ?w" by simp
  have "\<bar>?m - ?s\<bar> \<le> 1 / 2"
    using roundHalfEven_bounds [of ?s] by linarith
  also have "\<dots> \<le> ?s / 2 ^ 53"
    using scaled_bounds(1) [OF assms] by simp
  finally have r: "\<bar>?m - ?s\<bar> \<le> ?s / 2 ^ 53" .
  have "fl x - x = (?m - ?s) * ?w"
    by (simp only: fl_pos_eq [OF assms] left_diff_distrib scale_back)
  then have "\<bar>fl x - x\<bar> = \<bar>?m - ?s\<bar> * ?w"
    using w by (simp only: abs_mult abs_of_pos)
  also have "\<dots> \<le> ?s / 2 ^ 53 * ?w"
    using r w by (intro mult_right_mono) simp_all
  also have "\<dots> = (?s * ?w) / 2 ^ 53"
    by (simp only: times_divide_eq_left)
  also have "\<dots> = x / 2 ^ 53"
    by (simp only: scale_back)
  finally show ?thesis .
qed

lemma fl_nonneg: "0 \<le> x \<Longrightarrow> 0 \<le> fl x"
proof (cases "x = 0")
  case True
  then show ?thesis by (simp add: fl_zero)
next
  case False
  assume "0 \<le> x"
  with False have "0 < x" by simp
  have "(0::rat) < 2 powi (expo x)" by simp
  with fl_bounds(1) [OF \<open>0 < x\<close>] show ?thesis
    by linarith
qed

lemma expo_mono:
  assumes "0 < x" and "x \<le> y"
  shows "expo x \<le> expo y"
proof -
  from assms have y: "0 < y" by simp
  have "(2::rat) powi (expo x) < 2 powi (expo y + 1)"
    using expo_bounds(1) [OF assms(1)] expo_bounds(2) [OF y] assms(2) by linarith
  have "expo x < expo y + 1"
  proof (rule ccontr)
    assume "\<not> expo x < expo y + 1"
    then have "expo y + 1 \<le> expo x" by simp
    then have "(2::rat) powi (expo y + 1) \<le> 2 powi (expo x)"
      by (intro power_int_increasing) simp_all
    with \<open>(2::rat) powi (expo x) < 2 powi (expo y + 1)\<close> show False by simp
  qed
  then show ?thesis by simp
qed

lemma fl_mono:
  assumes "0 \<le> x" and "x \<le> y"
  shows "fl x \<le> fl y"
proof (cases "x = 0")
  case True
  with assms show ?thesis by (simp add: fl_zero fl_nonneg)
next
  case False
  with assms have x: "0 < x" and y: "0 < y" by simp_all
  show ?thesis
  proof (cases "expo x = expo y")
    case True
    have "x * 2 powi (52 - expo y) \<le> y * 2 powi (52 - expo y)"
      using assms(2) by (intro mult_right_mono) simp_all
    then have "roundHalfEven (x * 2 powi (52 - expo y)) \<le> roundHalfEven (y * 2 powi (52 - expo y))"
      by (rule roundHalfEven_mono)
    then have "(of_int (roundHalfEven (x * 2 powi (52 - expo y))) :: rat)
        \<le> of_int (roundHalfEven (y * 2 powi (52 - expo y)))"
      by (simp only: of_int_le_iff)
    then show ?thesis
      unfolding fl_pos_eq [OF x] fl_pos_eq [OF y] True
      by (intro mult_right_mono) simp_all
  next
    case False
    with expo_mono [OF x assms(2)] have "expo x + 1 \<le> expo y" by simp
    then have "(2::rat) powi (expo x + 1) \<le> 2 powi (expo y)"
      by (intro power_int_increasing) simp_all
    with fl_bounds(2) [OF x] fl_bounds(1) [OF y] show ?thesis by linarith
  qed
qed


section \<open>Percentiles: properties\<close>

lemma countLoop_takeWhile:
  "countLoop xs u c = c + int (length (takeWhile (\<lambda>v. v < u) xs))"
  by (induction xs arbitrary: c) simp_all

lemma sorted_takeWhile_filter:
  "sorted xs \<Longrightarrow> takeWhile (\<lambda>v. v < u) xs = filter (\<lambda>v. v < (u::int)) xs"
proof (induction xs)
  case Nil
  then show ?case by simp
next
  case (Cons x xs)
  show ?case
  proof (cases "x < u")
    case True
    with Cons show ?thesis by simp
  next
    case False
    with Cons.prems have "\<forall>y \<in> set xs. \<not> y < u" by auto
    then have "filter (\<lambda>v. v < u) xs = []" by (simp add: filter_empty_conv)
    with False show ?thesis by simp
  qed
qed

lemma countLoop_sort:
  "countLoop (sort vs) u 0 = int (length (filter (\<lambda>v. v < u) vs))"
proof -
  have "length (filter (\<lambda>v. v < u) (sort vs)) = length (filter (\<lambda>v. v < u) vs)"
    by (simp add: filter_sort)
  then show ?thesis
    by (simp add: countLoop_takeWhile sorted_takeWhile_filter)
qed

lemma getPercentile_eq:
  "vs \<noteq> [] \<Longrightarrow> u \<noteq> 0 \<Longrightarrow>
     getPercentile vs u =
       Math_round (fl (fl (of_nat (length (filter (\<lambda>v. v < u) vs)) / of_nat (length vs)) * 100))"
  by (simp add: getPercentile_def Let_def countLoop_sort)

lemma getPercentile_zero: "vs = [] \<or> u = 0 \<Longrightarrow> getPercentile vs u = 0"
  by (auto simp: getPercentile_def)

lemma fl_one: "fl 1 = 1"
  by code_simp

lemma fl_hundred: "fl 100 = 100"
  by code_simp

lemma Math_round_mono: "x \<le> y \<Longrightarrow> Math_round x \<le> Math_round y"
  by (simp add: Math_round_def floor_mono)

lemma percentOf_range:
  assumes "k \<le> n" and "0 < n"
  shows "0 \<le> percentOf k n" and "percentOf k n \<le> 100"
proof -
  have q: "(0::rat) \<le> of_nat k / of_nat n" "(of_nat k / of_nat n :: rat) \<le> 1"
    using assms by simp_all
  have a: "0 \<le> fl (of_nat k / of_nat n)" by (rule fl_nonneg [OF q(1)])
  have "fl (of_nat k / of_nat n) \<le> fl 1" by (rule fl_mono [OF q])
  then have b: "fl (of_nat k / of_nat n) \<le> 1" by (simp add: fl_one)
  from a show "0 \<le> percentOf k n"
    unfolding percentOf_def by (intro fl_nonneg) simp
  have "fl (fl (of_nat k / of_nat n) * 100) \<le> fl 100"
    using a b by (intro fl_mono) simp_all
  then show "percentOf k n \<le> 100"
    by (simp add: percentOf_def fl_hundred)
qed

lemma percentOf_mono:
  assumes "k \<le> k'"
  shows "percentOf k n \<le> percentOf k' n"
proof -
  have q: "(0::rat) \<le> of_nat k / of_nat n" "(of_nat k / of_nat n :: rat) \<le> of_nat k' / of_nat n"
    using assms by (simp_all add: divide_right_mono)
  have "fl (of_nat k / of_nat n) \<le> fl (of_nat k' / of_nat n)" by (rule fl_mono [OF q])
  moreover have "0 \<le> fl (of_nat k / of_nat n)" by (rule fl_nonneg [OF q(1)])
  ultimately show ?thesis
    unfolding percentOf_def by (intro fl_mono) simp_all
qed

lemma percentOf_error:
  assumes "k \<le> n" and "0 < n"
  shows "\<bar>percentOf k n - 100 * of_nat k / of_nat n\<bar> \<le> 300 / 2 ^ 53"
proof (cases "k = 0")
  case True
  then show ?thesis by (simp add: percentOf_def fl_zero)
next
  case False
  let ?q = "of_nat k / of_nat n :: rat"
  from False assms have q: "0 < ?q" "?q \<le> 1" by simp_all
  have e1: "\<bar>fl ?q - ?q\<bar> \<le> ?q / 2 ^ 53" by (rule fl_error [OF q(1)])
  have "?q / 2 ^ 53 \<le> 1 / 2 ^ 53"
    using q(2) by (intro divide_right_mono) simp_all
  with e1 have e1': "\<bar>fl ?q - ?q\<bar> \<le> 1 / 2 ^ 53"
    by linarith
  have "(0::rat) < 2 powi (expo ?q)" by simp
  with fl_bounds(1) [OF q(1)] have "0 < fl ?q"
    by linarith
  then have z: "0 < fl ?q * 100" by simp
  have "fl ?q \<le> fl 1" using q by (intro fl_mono) simp_all
  then have z': "fl ?q * 100 \<le> 100" by (simp add: fl_one)
  have e2: "\<bar>fl (fl ?q * 100) - fl ?q * 100\<bar> \<le> fl ?q * 100 / 2 ^ 53" by (rule fl_error [OF z])
  have "fl ?q * 100 / 2 ^ 53 \<le> 100 / 2 ^ 53"
    using z' by (intro divide_right_mono) simp_all
  with e2 have e2': "\<bar>fl (fl ?q * 100) - fl ?q * 100\<bar> \<le> 100 / 2 ^ 53"
    by linarith
  have "fl ?q * 100 - 100 * ?q = 100 * (fl ?q - ?q)"
    by (simp add: algebra_simps)
  then have "\<bar>fl ?q * 100 - 100 * ?q\<bar> = 100 * \<bar>fl ?q - ?q\<bar>"
    by (simp only: abs_mult abs_numeral)
  with e1' have e3: "\<bar>fl ?q * 100 - 100 * ?q\<bar> \<le> 100 / 2 ^ 53" by linarith
  have "\<bar>percentOf k n - 100 * ?q\<bar> \<le> \<bar>fl (fl ?q * 100) - fl ?q * 100\<bar> + \<bar>fl ?q * 100 - 100 * ?q\<bar>"
    unfolding percentOf_def by linarith
  with e2' e3 show ?thesis by simp
qed


lemma frac_ratio:
  assumes "0 < n"
  shows "frac (of_int a / of_int n :: rat) = of_int (a mod n) / of_int n"
proof -
  have "\<lfloor>of_int a / of_int n :: rat\<rfloor> = a div n"
    by (rule floor_divide_of_int_eq)
  moreover have "(of_int a :: rat) = of_int (a div n) * of_int n + of_int (a mod n)"
    by (metis div_mult_mod_eq of_int_add of_int_mult)
  ultimately show ?thesis
    using assms by (simp add: frac_def field_simps)
qed

lemma round_stable:
  fixes y :: rat and a n :: int
  assumes n: "0 < n"
    and y: "\<bar>y - of_int a / of_int n\<bar> < 1 / (2 * of_int n)"
    and tie: "frac (of_int a / of_int n :: rat) \<noteq> 1 / 2"
  shows "\<lfloor>y + 1 / 2\<rfloor> = \<lfloor>of_int a / of_int n + 1 / 2 :: rat\<rfloor>"
proof -
  let ?v = "of_int a / of_int n :: rat"
  let ?t = "1 / (2 * of_int n) :: rat"
  let ?f = "a div n"
  let ?r = "a mod n"
  have t: "0 < ?t" "?t \<le> 1 / 2" "of_int n * ?t = 1 / 2"
    using n by (simp_all add: field_simps)
  have v: "?v = of_int ?f + 2 * of_int ?r * ?t"
  proof -
    have "(of_int a :: rat) = of_int ?f * of_int n + of_int ?r"
      by (metis div_mult_mod_eq of_int_add of_int_mult)
    then show ?thesis using n by (simp add: field_simps)
  qed
  have r: "0 \<le> ?r" "?r < n" using n by simp_all
  from tie have "2 * ?r \<noteq> n"
    using n by (auto simp: frac_ratio [OF n] field_simps)
  then consider "2 * ?r + 1 \<le> n" | "n + 1 \<le> 2 * ?r" by linarith
  then show ?thesis
  proof cases
    case 1
    then have i: "(of_int (2 * ?r + 1) :: rat) \<le> of_int n"
      by (simp only: of_int_le_iff)
    have "(of_int (2 * ?r + 1) :: rat) * ?t \<le> of_int n * ?t"
      by (rule mult_right_mono [OF i less_imp_le [OF t(1)]])
    then have le: "2 * of_int ?r * ?t \<le> 1 / 2 - ?t"
      using t(3) by (simp add: algebra_simps)
    have ge: "0 \<le> 2 * of_int ?r * ?t"
      using r(1) t(1) by simp
    have a: "\<lfloor>?v + 1 / 2\<rfloor> = ?f"
      by (rule floor_unique) (use v le ge t in linarith)+
    have b: "\<lfloor>y + 1 / 2\<rfloor> = ?f"
      by (rule floor_unique) (use v le ge t y in linarith)+
    from a b show ?thesis by simp
  next
    case 2
    then have i: "(of_int n :: rat) \<le> of_int (2 * ?r - 1)"
      by (simp only: of_int_le_iff)
    have "of_int n * ?t \<le> (of_int (2 * ?r - 1) :: rat) * ?t"
      by (rule mult_right_mono [OF i less_imp_le [OF t(1)]])
    then have ge: "1 / 2 + ?t \<le> 2 * of_int ?r * ?t"
      using t(3) by (simp add: algebra_simps)
    have lt: "2 * of_int ?r * ?t < 1"
    proof -
      from r(2) have "(of_int ?r :: rat) < of_int n" by (simp only: of_int_less_iff)
      then have "(of_int ?r :: rat) * ?t < of_int n * ?t"
        using t(1) by (intro mult_strict_right_mono) simp_all
      with t(3) show ?thesis by (simp add: algebra_simps)
    qed
    have a: "\<lfloor>?v + 1 / 2\<rfloor> = ?f + 1"
      by (rule floor_unique) (use v lt ge t in \<open>simp; linarith\<close>)+
    have b: "\<lfloor>y + 1 / 2\<rfloor> = ?f + 1"
      by (rule floor_unique) (use v lt ge t y in \<open>simp; linarith\<close>)+
    from a b show ?thesis by simp
  qed
qed

lemma round_tie:
  fixes y :: rat and a n :: int
  assumes n: "0 < n"
    and y: "\<bar>y - of_int a / of_int n\<bar> < 1 / (2 * of_int n)"
    and tie: "frac (of_int a / of_int n :: rat) = 1 / 2"
  shows "\<lfloor>y + 1 / 2\<rfloor> = \<lfloor>of_int a / of_int n :: rat\<rfloor> \<or> \<lfloor>y + 1 / 2\<rfloor> = \<lfloor>of_int a / of_int n :: rat\<rfloor> + 1"
proof -
  let ?v = "of_int a / of_int n :: rat"
  have t: "(1 / (2 * of_int n) :: rat) \<le> 1 / 2"
    using n by (simp add: field_simps)
  from tie have v: "?v = of_int \<lfloor>?v\<rfloor> + 1 / 2"
    unfolding frac_def by linarith
  have "of_int \<lfloor>?v\<rfloor> \<le> y + 1 / 2" "y + 1 / 2 < of_int \<lfloor>?v\<rfloor> + 2"
    using v y t by linarith+
  then have "\<lfloor>?v\<rfloor> \<le> \<lfloor>y + 1 / 2\<rfloor>" "\<lfloor>y + 1 / 2\<rfloor> < \<lfloor>?v\<rfloor> + 2"
    by (simp_all add: le_floor_iff floor_less_iff)
  then show ?thesis by linarith
qed


lemma Math_round_percentOf:
  assumes "k \<le> n" and "0 < n"
  shows "0 \<le> Math_round (percentOf k n)" and "Math_round (percentOf k n) \<le> 100"
proof -
  from percentOf_range [OF assms] have "0 \<le> percentOf k n" "percentOf k n \<le> 100" .
  then have "(of_int 0 :: rat) \<le> percentOf k n + 1 / 2" "percentOf k n + 1 / 2 < of_int 100 + 1"
    by simp_all
  then show "0 \<le> Math_round (percentOf k n)" "Math_round (percentOf k n) \<le> 100"
    unfolding Math_round_def by (simp_all only: le_floor_iff floor_less_iff [symmetric]) simp_all
qed

lemma getPercentile_percentOf:
  "vs \<noteq> [] \<Longrightarrow> u \<noteq> 0 \<Longrightarrow>
     getPercentile vs u = Math_round (percentOf (length (filter (\<lambda>v. v < u) vs)) (length vs))"
  by (simp add: getPercentile_eq percentOf_def)

lemma getPercentile_range: "0 \<le> getPercentile vs u" "getPercentile vs u \<le> 100"
proof -
  show "0 \<le> getPercentile vs u"
  proof (cases "vs = [] \<or> u = 0")
    case True
    then show ?thesis by (simp add: getPercentile_zero)
  next
    case False
    then show ?thesis
      by (simp add: getPercentile_percentOf Math_round_percentOf(1))
  qed
  show "getPercentile vs u \<le> 100"
  proof (cases "vs = [] \<or> u = 0")
    case True
    then show ?thesis by (simp add: getPercentile_zero)
  next
    case False
    then show ?thesis
      by (simp add: getPercentile_percentOf Math_round_percentOf(2))
  qed
qed

lemma small_error:
  assumes "0 < n" and "n < 2 ^ 32"
  shows "(300 / 2 ^ 53 :: rat) < 1 / (2 * of_nat n)"
proof -
  from assms(2) have "(of_nat n :: rat) < of_nat (2 ^ 32)"
    by (simp only: of_nat_less_iff)
  then have "(of_nat n :: rat) < 4294967296" by simp
  with assms(1) show ?thesis by (simp add: field_simps)
qed

lemma percent_as_ratio:
  "(of_nat k / of_nat n * 100 :: rat) = of_int (100 * int k) / of_int (int n)"
  by simp

lemma getPercentile_exact:
  assumes vs: "vs \<noteq> []" and u: "u \<noteq> 0" and len: "length vs < 2 ^ 32"
    and tie: "frac (of_nat (length (filter (\<lambda>v. v < u) vs)) / of_nat (length vs) * 100 :: rat) \<noteq> 1 / 2"
  shows "getPercentile vs u =
    roundHalfAwayFromZero (of_nat (length (filter (\<lambda>v. v < u) vs)) / of_nat (length vs) * 100)"
proof -
  let ?k = "length (filter (\<lambda>v. v < u) vs)"
  let ?n = "length vs"
  have n: "0 < ?n" using vs by simp
  have k: "?k \<le> ?n" by simp
  have "\<bar>percentOf ?k ?n - 100 * of_nat ?k / of_nat ?n\<bar> \<le> 300 / 2 ^ 53"
    by (rule percentOf_error [OF k n])
  with small_error [OF n len]
  have y: "\<bar>percentOf ?k ?n - of_int (100 * int ?k) / of_int (int ?n)\<bar> < 1 / (2 * of_int (int ?n))"
    by simp
  have n': "0 < int ?n" using n by simp
  have tie': "frac (of_int (100 * int ?k) / of_int (int ?n) :: rat) \<noteq> 1 / 2"
    using tie unfolding percent_as_ratio .
  have "\<lfloor>percentOf ?k ?n + 1 / 2\<rfloor> =
      \<lfloor>of_int (100 * int ?k) / of_int (int ?n) + 1 / 2 :: rat\<rfloor>"
    by (rule round_stable [OF n' y tie'])
  then have "Math_round (percentOf ?k ?n) = \<lfloor>of_nat ?k / of_nat ?n * 100 + 1 / 2 :: rat\<rfloor>"
    by (simp only: Math_round_def percent_as_ratio)
  moreover have "(0::rat) \<le> of_nat ?k / of_nat ?n * 100" by simp
  ultimately show ?thesis
    by (simp only: getPercentile_percentOf [OF vs u] roundHalfAwayFromZero_def if_True)
qed

lemma getPercentile_tie:
  assumes vs: "vs \<noteq> []" and u: "u \<noteq> 0" and len: "length vs < 2 ^ 32"
    and tie: "frac (of_nat (length (filter (\<lambda>v. v < u) vs)) / of_nat (length vs) * 100 :: rat) = 1 / 2"
  shows "getPercentile vs u = \<lfloor>of_nat (length (filter (\<lambda>v. v < u) vs)) / of_nat (length vs) * 100 :: rat\<rfloor>
    \<or> getPercentile vs u = \<lfloor>of_nat (length (filter (\<lambda>v. v < u) vs)) / of_nat (length vs) * 100 :: rat\<rfloor> + 1"
proof -
  let ?k = "length (filter (\<lambda>v. v < u) vs)"
  let ?n = "length vs"
  have n: "0 < ?n" using vs by simp
  have k: "?k \<le> ?n" by simp
  have "\<bar>percentOf ?k ?n - 100 * of_nat ?k / of_nat ?n\<bar> \<le> 300 / 2 ^ 53"
    by (rule percentOf_error [OF k n])
  with small_error [OF n len]
  have y: "\<bar>percentOf ?k ?n - of_int (100 * int ?k) / of_int (int ?n)\<bar> < 1 / (2 * of_int (int ?n))"
    by simp
  have n': "0 < int ?n" using n by simp
  have tie': "frac (of_int (100 * int ?k) / of_int (int ?n) :: rat) = 1 / 2"
    using tie unfolding percent_as_ratio .
  have "\<lfloor>percentOf ?k ?n + 1 / 2\<rfloor> = \<lfloor>of_int (100 * int ?k) / of_int (int ?n) :: rat\<rfloor>
      \<or> \<lfloor>percentOf ?k ?n + 1 / 2\<rfloor> = \<lfloor>of_int (100 * int ?k) / of_int (int ?n) :: rat\<rfloor> + 1"
    by (rule round_tie [OF n' y tie'])
  then show ?thesis
    by (simp only: getPercentile_percentOf [OF vs u] Math_round_def percent_as_ratio)
qed

lemma getPercentile_le:
  assumes "u1 \<le> u2" and "u1 \<noteq> 0" and "u2 \<noteq> 0"
  shows "getPercentile vs u1 \<le> getPercentile vs u2"
proof (cases "vs = []")
  case True
  then show ?thesis by (simp add: getPercentile_zero)
next
  case False
  have "length (filter (\<lambda>v. v < u1) vs) = length (filter (\<lambda>v. v < u1) (filter (\<lambda>v. v < u2) vs))"
    using assms(1) by (simp add: conj_commute) (metis (mono_tags, lifting) filter_cong less_le_trans)
  also have "\<dots> \<le> length (filter (\<lambda>v. v < u2) vs)"
    by (rule length_filter_le)
  finally have "percentOf (length (filter (\<lambda>v. v < u1) vs)) (length vs)
      \<le> percentOf (length (filter (\<lambda>v. v < u2) vs)) (length vs)"
    by (rule percentOf_mono)
  then show ?thesis
    by (simp only: getPercentile_percentOf [OF False assms(2)]
        getPercentile_percentOf [OF False assms(3)] Math_round_mono)
qed

lemma Math_round_zero: "Math_round 0 = 0"
  unfolding Math_round_def by (rule floor_unique) simp_all

lemma getPercentile_below:
  assumes "\<forall>v \<in> set vs. u \<le> v"
  shows "getPercentile vs u = 0"
proof (cases "vs = [] \<or> u = 0")
  case True
  then show ?thesis by (simp add: getPercentile_zero)
next
  case False
  from assms have "filter (\<lambda>v. v < u) vs = []"
    by (auto simp: filter_empty_conv)
  with False show ?thesis
    by (simp add: getPercentile_eq fl_zero Math_round_zero)
qed


lemma percentile_nonZero:
  "\<forall>c \<in> set d. 0 \<le> c \<Longrightarrow> percentile d u = getPercentile (nonZero d) u"
proof -
  assume "\<forall>c \<in> set d. 0 \<le> c"
  then have "filter (\<lambda>count. count > 0) d = filter (\<lambda>c. c \<noteq> 0) d"
    by (intro filter_cong) auto
  then show ?thesis by (simp add: percentile_def nonZero_def)
qed


text \<open>
  Claim C2, as the code has it. For a distribution of counts (no negative entry) and any
  user value, the percentile is an integer from 0 to 100; it is 0 when the distribution
  without its zero entries is empty or the user value is 0; otherwise it is \<^verbatim>\<open>Math.round\<close>
  of the double \<^verbatim>\<open>(count / n) * 100\<close>, \<open>count\<close> the remaining values strictly below the user
  value and \<open>n\<close> the number of remaining values. For fewer than \<open>2^32\<close> values (the limit of
  an array) that is the exact quotient rounded to the nearest integer, unless the exact
  quotient lies half-way between two integers: then it is one of the two. For the
  distribution 1..10 and the user value 6 it is 50.
\<close>

theorem percentile_spec:
  "((\<forall>c \<in> set d. 0 \<le> c) \<longrightarrow>
      0 \<le> percentile d u \<and> percentile d u \<le> 100
      \<and> (nonZero d = [] \<or> u = 0 \<longrightarrow> percentile d u = 0)
      \<and> (nonZero d \<noteq> [] \<and> u \<noteq> 0 \<longrightarrow>
           percentile d u =
             Math_round (fl (fl (of_nat (countBelow (nonZero d) u) / of_nat (length (nonZero d))) * 100)))
      \<and> (nonZero d \<noteq> [] \<and> u \<noteq> 0 \<and> length (nonZero d) < 2 ^ 32
           \<and> frac (exactPercent (nonZero d) u) \<noteq> 1 / 2 \<longrightarrow>
           percentile d u = roundHalfAwayFromZero (exactPercent (nonZero d) u))
      \<and> (nonZero d \<noteq> [] \<and> u \<noteq> 0 \<and> length (nonZero d) < 2 ^ 32
           \<and> frac (exactPercent (nonZero d) u) = 1 / 2 \<longrightarrow>
           percentile d u = \<lfloor>exactPercent (nonZero d) u\<rfloor>
           \<or> percentile d u = \<lfloor>exactPercent (nonZero d) u\<rfloor> + 1))
   \<and> percentile [1, 2, 3, 4, 5, 6, 7, 8, 9, 10] 6 = 50"
proof (intro conjI impI)
  assume nn: "\<forall>c \<in> set d. 0 \<le> c"
  note p = percentile_nonZero [OF nn]
  show "0 \<le> percentile d u" "percentile d u \<le> 100"
    by (simp_all add: p getPercentile_range)
  show "percentile d u = 0" if "nonZero d = [] \<or> u = 0"
    using that by (simp add: p getPercentile_zero)
  show "percentile d u =
      Math_round (fl (fl (of_nat (countBelow (nonZero d) u) / of_nat (length (nonZero d))) * 100))"
    if "nonZero d \<noteq> [] \<and> u \<noteq> 0"
    using that by (simp add: p getPercentile_eq countBelow_def)
  show "percentile d u = roundHalfAwayFromZero (exactPercent (nonZero d) u)"
    if "nonZero d \<noteq> [] \<and> u \<noteq> 0 \<and> length (nonZero d) < 2 ^ 32
           \<and> frac (exactPercent (nonZero d) u) \<noteq> 1 / 2"
    using that getPercentile_exact [of "nonZero d" u]
    by (simp add: p exactPercent_def countBelow_def)
  show "percentile d u = \<lfloor>exactPercent (nonZero d) u\<rfloor>
           \<or> percentile d u = \<lfloor>exactPercent (nonZero d) u\<rfloor> + 1"
    if "nonZero d \<noteq> [] \<and> u \<noteq> 0 \<and> length (nonZero d) < 2 ^ 32
           \<and> frac (exactPercent (nonZero d) u) = 1 / 2"
    using that getPercentile_tie [of "nonZero d" u]
    by (simp add: p exactPercent_def countBelow_def)
next
  show "percentile [1, 2, 3, 4, 5, 6, 7, 8, 9, 10] 6 = 50"
    by code_simp
qed

theorem percentile_spec_witness:
  "list_all (\<lambda>c. 0 \<le> c) [1, 2, 3, 4, 5, 6, 7, 8, 9, 10::int]
   \<and> nonZero [1, 2, 3, 4, 5, 6, 7, 8, 9, 10] \<noteq> []
   \<and> length (nonZero [1, 2, 3, 4, 5, 6, 7, 8, 9, 10]) < 2 ^ 32
   \<and> frac (exactPercent (nonZero [1, 2, 3, 4, 5, 6, 7, 8, 9, 10]) 6) \<noteq> 1 / 2
   \<and> percentile [1, 2, 3, 4, 5, 6, 7, 8, 9, 10] 6
       = roundHalfAwayFromZero (exactPercent (nonZero [1, 2, 3, 4, 5, 6, 7, 8, 9, 10]) 6)
   \<and> roundHalfAwayFromZero (exactPercent (nonZero [1, 2, 3, 4, 5, 6, 7, 8, 9, 10]) 6) = 50
   \<and> list_all (\<lambda>c. 0 \<le> c) tieDistribution
   \<and> nonZero tieDistribution \<noteq> []
   \<and> length (nonZero tieDistribution) < 2 ^ 32
   \<and> frac (exactPercent (nonZero tieDistribution) 2) = 1 / 2
   \<and> \<lfloor>exactPercent (nonZero tieDistribution) 2\<rfloor> = 57
   \<and> (percentile tieDistribution 2 = \<lfloor>exactPercent (nonZero tieDistribution) 2\<rfloor>
        \<or> percentile tieDistribution 2 = \<lfloor>exactPercent (nonZero tieDistribution) 2\<rfloor> + 1)
   \<and> nonZero [0, 0] = []
   \<and> percentile [0, 0] 5 = 0"
proof -
  have a1: "\<forall>c \<in> set [1, 2, 3, 4, 5, 6, 7, 8, 9, 10::int]. 0 \<le> c"
    by simp
  have a2: "nonZero [1, 2, 3, 4, 5, 6, 7, 8, 9, 10] \<noteq> []"
    by (simp add: nonZero_def)
  have a3: "length (nonZero [1, 2, 3, 4, 5, 6, 7, 8, 9, 10]) < 2 ^ 32"
    by (simp add: nonZero_def)
  have a4: "frac (exactPercent (nonZero [1, 2, 3, 4, 5, 6, 7, 8, 9, 10]) 6) \<noteq> 1 / 2"
    by code_simp
  have a5: "roundHalfAwayFromZero (exactPercent (nonZero [1, 2, 3, 4, 5, 6, 7, 8, 9, 10]) 6) = 50"
    by code_simp
  have a6: "(6::int) \<noteq> 0"
    by simp
  have b1: "\<forall>c \<in> set tieDistribution. 0 \<le> c"
    by (auto simp: tieDistribution_def)
  have b2: "nonZero tieDistribution \<noteq> []"
    by (simp add: nonZero_def tieDistribution_def)
  have b3: "length (nonZero tieDistribution) < 2 ^ 32"
    by (simp add: nonZero_def tieDistribution_def)
  have b4: "frac (exactPercent (nonZero tieDistribution) 2) = 1 / 2"
    by code_simp
  have b5: "\<lfloor>exactPercent (nonZero tieDistribution) 2\<rfloor> = 57"
    by code_simp
  have b6: "(2::int) \<noteq> 0"
    by simp
  have c1: "\<forall>c \<in> set [0, 0::int]. 0 \<le> c"
    by simp
  have c2: "nonZero [0, 0] = []"
    by (simp add: nonZero_def)
  from percentile_spec [of "[1, 2, 3, 4, 5, 6, 7, 8, 9, 10]" 6] a1 a2 a3 a4 a6
  have r1: "percentile [1, 2, 3, 4, 5, 6, 7, 8, 9, 10] 6
      = roundHalfAwayFromZero (exactPercent (nonZero [1, 2, 3, 4, 5, 6, 7, 8, 9, 10]) 6)"
    by blast
  from percentile_spec [of tieDistribution 2] b1 b2 b3 b4 b6
  have r2: "percentile tieDistribution 2 = \<lfloor>exactPercent (nonZero tieDistribution) 2\<rfloor>
        \<or> percentile tieDistribution 2 = \<lfloor>exactPercent (nonZero tieDistribution) 2\<rfloor> + 1"
    by blast
  from percentile_spec [of "[0, 0]" 5] c1 c2
  have r3: "percentile [0, 0] 5 = 0"
    by blast
  show ?thesis
    unfolding list_all_iff
    by (intro conjI) (rule a1 a2 a3 a4 a5 b1 b2 b3 b4 b5 c2 r1 r2 r3)+
qed

text \<open>
  The claim as the specification states it fails at a tie: with 23 of 40 values below the
  user value the exact quotient is 57.5, which rounds away from zero to 58; the double
  \<^verbatim>\<open>(23 / 40) * 100\<close> is 57.49999999999999 and \<^verbatim>\<open>Math.round\<close> gives 57.
\<close>

theorem percentile_spec_counterexample:
  "percentile tieDistribution 2 = 57
   \<and> roundHalfAwayFromZero (exactPercent (nonZero tieDistribution) 2) = 58"
  by code_simp

text \<open>
  Claim C9. For a fixed distribution the percentile does not decrease when the user value
  grows; the same holds for \<^verbatim>\<open>getPercentile\<close> itself on any list of values, for user
  values from 0 up.
\<close>

theorem percentile_monotone:
  "(u1 \<le> u2 \<longrightarrow> percentile d u1 \<le> percentile d u2)
   \<and> (0 \<le> u1 \<and> u1 \<le> u2 \<longrightarrow> getPercentile vs u1 \<le> getPercentile vs u2)"
proof (intro conjI impI)
  assume le: "u1 \<le> u2"
  let ?r = "filter (\<lambda>count. count > 0) d"
  consider "u1 = 0" | "u1 \<noteq> 0" "u2 = 0" | "u1 \<noteq> 0" "u2 \<noteq> 0" by blast
  then show "percentile d u1 \<le> percentile d u2"
  proof cases
    case 1
    then show ?thesis by (simp add: percentile_def getPercentile_zero getPercentile_range(1))
  next
    case 2
    with le have "\<forall>v \<in> set ?r. u1 \<le> v" by auto
    then have "getPercentile ?r u1 = 0" by (rule getPercentile_below)
    then show ?thesis by (simp add: percentile_def getPercentile_range(1))
  next
    case 3
    then show ?thesis
      unfolding percentile_def by (intro getPercentile_le le)
  qed
next
  assume h: "0 \<le> u1 \<and> u1 \<le> u2"
  show "getPercentile vs u1 \<le> getPercentile vs u2"
  proof (cases "u1 = 0")
    case True
    then show ?thesis by (simp add: getPercentile_zero getPercentile_range(1))
  next
    case False
    with h have "u1 \<noteq> 0" "u2 \<noteq> 0" "u1 \<le> u2" by simp_all
    then show ?thesis by (intro getPercentile_le)
  qed
qed

theorem percentile_monotone_witness:
  "(5::int) \<le> 7
   \<and> percentile [1, 2, 3, 4, 5, 6, 7, 8, 9, 10] 5 \<le> percentile [1, 2, 3, 4, 5, 6, 7, 8, 9, 10] 7
   \<and> percentile [1, 2, 3, 4, 5, 6, 7, 8, 9, 10] 5 = 40
   \<and> percentile [1, 2, 3, 4, 5, 6, 7, 8, 9, 10] 7 = 60
   \<and> (0::int) \<le> 5
   \<and> getPercentile [3, -1, 2] 5 \<le> getPercentile [3, -1, 2] 7"
proof -
  have h: "(5::int) \<le> 7" "(0::int) \<le> 5"
    by simp_all
  have v: "percentile [1, 2, 3, 4, 5, 6, 7, 8, 9, 10] 5 = 40"
    "percentile [1, 2, 3, 4, 5, 6, 7, 8, 9, 10] 7 = 60"
    by code_simp+
  from percentile_monotone [of 5 7 "[1, 2, 3, 4, 5, 6, 7, 8, 9, 10]" "[3, -1, 2]"] h
  have r: "percentile [1, 2, 3, 4, 5, 6, 7, 8, 9, 10] 5 \<le> percentile [1, 2, 3, 4, 5, 6, 7, 8, 9, 10] 7"
    "getPercentile [3, -1, 2] 5 \<le> getPercentile [3, -1, 2] 7"
    by blast+
  show ?thesis
    by (intro conjI) (rule h v r)+
qed

section \<open>Further properties\<close>

text \<open>
  The end-to-end scenario: with the identity \<open>user@x.com\<close> the snapshot has three commits,
  one pull request, one active repository, and \<^verbatim>\<open>repoStats\<close> holds \<open>Proj/A\<close> only.
\<close>

theorem scenario_snapshot:
  "(case fetchAllMetrics scenarioEnv 30 (Some ''user@x.com'') (\<lambda>n. 0) of
      Inl e \<Rightarrow> None
    | Inr m \<Rightarrow> Some (totalCommits m, totalPRs m, activeRepos m, map fst (repoStats m)))
     = Some (3, 1, 1, [''Proj/A''])"
  by code_simp

text \<open>
  Without an identity (\<^verbatim>\<open>null\<close> or the empty string) no work-item query is made and the
  project's work-item count is 0.
\<close>

lemma analyzeProject_no_identity:
  assumes "u = None \<or> u = Some []"
  shows "pm_workItems (analyzeProject E p d u) = 0"
proof (cases "getRepositories E (project_id p)")
  case (Inl e)
  then show ?thesis by (simp add: analyzeProject_def emptyProjectMetrics_def)
next
  case (Inr repos)
  obtain pm e where r: "analyzeRepos E p d u repos emptyProjectMetrics = (pm, e)"
    by (cases "analyzeRepos E p d u repos emptyProjectMetrics")
  have "pm_workItems (fst (analyzeRepos E p d u repos emptyProjectMetrics)) = 0"
    by (simp add: analyzeRepos_workItems emptyProjectMetrics_def)
  then have "pm_workItems pm = 0" by (simp add: r)
  with assms show ?thesis
    by (auto simp: analyzeProject_def Inr r split: option.splits)
qed

theorem workItems_need_identity:
  "pm_workItems (analyzeProject E p d None) = 0
   \<and> pm_workItems (analyzeProject E p d (Some [])) = 0"
  by (simp add: analyzeProject_no_identity)

text \<open>
  The sampler reads the first five repositories only: when none of their fetches throws,
  the project's commit and pull-request lists are the per-author counts of those five, in
  order, whatever comes after them, and its work-item list is the generator's.
\<close>

lemma sampleRepos_live:
  "\<forall>r \<in> set rs. \<not> repoFails E p d None r \<Longrightarrow>
     fst (sampleRepos E p d rs os) =
       os\<lparr>os_commits := os_commits os @ concat (map (commitCounts E p d) rs),
           os_prs := os_prs os @ concat (map (prCounts E p d) rs)\<rparr>"
proof (induction rs arbitrary: os)
  case Nil
  then show ?case by simp
next
  case (Cons x rs)
  from Cons.prems have ok: "\<not> repoFails E p d None x"
    and rest: "\<forall>r \<in> set rs. \<not> repoFails E p d None r"
    by simp_all
  from ok obtain cs qs where c: "getCommits E (project_id p) (repo_id x) None d = Inr cs"
    and q: "getPullRequests E (project_id p) (repo_id x) d = Inr qs"
    by (rule not_repoFails)
  show ?case
    by (simp add: c q Let_def Cons.IH [OF rest] commitCounts_def prCounts_def)
qed

theorem sampler_first_five:
  "getRepositories E (project_id p) = Inr repos
   \<and> (\<forall>r \<in> set (take 5 repos). \<not> repoFails E p d None r) \<longrightarrow>
   os_commits (fst (getProjectOrgStats E p d rng pos)) = concat (map (commitCounts E p d) (take 5 repos))
   \<and> os_prs (fst (getProjectOrgStats E p d rng pos)) = concat (map (prCounts E p d) (take 5 repos))
   \<and> os_workItems (fst (getProjectOrgStats E p d rng pos)) = fst (generateMockWorkItemStats rng pos)"
proof (intro impI)
  assume h: "getRepositories E (project_id p) = Inr repos
   \<and> (\<forall>r \<in> set (take 5 repos). \<not> repoFails E p d None r)"
  let ?os = "\<lparr>os_commits = [], os_prs = [], os_workItems = []\<rparr>"
  from h have s: "snd (sampleRepos E p d (take 5 repos) ?os) = None"
    using sampleRepos_ok by blast
  from h have l: "fst (sampleRepos E p d (take 5 repos) ?os) =
      ?os\<lparr>os_commits := os_commits ?os @ concat (map (commitCounts E p d) (take 5 repos)),
           os_prs := os_prs ?os @ concat (map (prCounts E p d) (take 5 repos))\<rparr>"
    using sampleRepos_live by blast
  obtain os e where r: "sampleRepos E p d (take 5 repos) ?os = (os, e)"
    by (cases "sampleRepos E p d (take 5 repos) ?os")
  from s l r h show "os_commits (fst (getProjectOrgStats E p d rng pos)) = concat (map (commitCounts E p d) (take 5 repos))
   \<and> os_prs (fst (getProjectOrgStats E p d rng pos)) = concat (map (prCounts E p d) (take 5 repos))
   \<and> os_workItems (fst (getProjectOrgStats E p d rng pos)) = fst (generateMockWorkItemStats rng pos)"
    by (simp add: getProjectOrgStats_def split_beta)
qed

theorem sampler_first_five_witness:
  "getRepositories sixReposEnv (project_id proj1) = Inr sixRepos
   \<and> list_all (\<lambda>r. \<not> repoFails sixReposEnv proj1 30 None r) (take 5 sixRepos)
   \<and> repoFails sixReposEnv proj1 30 None (sixRepos ! 5)
   \<and> os_commits (fst (getProjectOrgStats sixReposEnv proj1 30 (\<lambda>n. 0) 0)) = [1, 1, 1, 1, 1]"
proof -
  have g: "getRepositories sixReposEnv (project_id proj1) = Inr sixRepos"
    by code_simp
  have h: "\<forall>r \<in> set (take 5 sixRepos). \<not> repoFails sixReposEnv proj1 30 None r"
    by code_simp
  have f: "repoFails sixReposEnv proj1 30 None (sixRepos ! 5)"
    by code_simp
  have v: "concat (map (commitCounts sixReposEnv proj1 30) (take 5 sixRepos)) = [1, 1, 1, 1, 1]"
    by code_simp
  from sampler_first_five [of sixReposEnv proj1 sixRepos 30 "\<lambda>n. 0" 0] g h
  have "os_commits (fst (getProjectOrgStats sixReposEnv proj1 30 (\<lambda>n. 0) 0))
      = concat (map (commitCounts sixReposEnv proj1 30) (take 5 sixRepos))"
    by blast
  with v have r: "os_commits (fst (getProjectOrgStats sixReposEnv proj1 30 (\<lambda>n. 0) 0)) = [1, 1, 1, 1, 1]"
    by simp
  show ?thesis
    unfolding list_all_iff by (intro conjI) (rule g h f r)+
qed

lemma key_project:
  "CHR ''/'' \<notin> set a \<Longrightarrow> takeWhile (\<lambda>c. c \<noteq> CHR ''/'') (a @ ''/'' @ n) = a"
  by (induction a) auto

lemma analyzeRepos_keys:
  "fst ` set (pm_repoStats (fst (analyzeRepos E p d u rs pm)))
     \<subseteq> fst ` set (pm_repoStats pm) \<union> {project_name p @ ''/'' @ n | n. True}"
proof (induction rs arbitrary: pm)
  case Nil
  then show ?case by simp
next
  case (Cons r rs)
  show ?case
  proof (cases "getCommits E (project_id p) (repo_id r) u d")
    case (Inl e)
    then show ?thesis by simp
  next
    case c: (Inr cs)
    show ?thesis
    proof (cases "getPullRequests E (project_id p) (repo_id r) d")
      case (Inl e)
      with c show ?thesis by simp
    next
      case q: (Inr qs)
      let ?pm = "pm\<lparr>pm_commits := pm_commits pm + int (length (filterCommitsByUser cs u)),
          pm_prs := pm_prs pm + int (length qs),
          pm_repoStats := AList.update (project_name p @ ''/'' @ repo_name r)
            \<lparr>rs_commits = int (length (filterCommitsByUser cs u)), rs_prs = int (length qs),
             rs_projectId = project_id p, rs_repoId = repo_id r\<rparr> (pm_repoStats pm)\<rparr>"
      have s: "analyzeRepos E p d u (r # rs) pm = analyzeRepos E p d u rs ?pm"
        by (simp add: c q Let_def)
      have "fst ` set (pm_repoStats ?pm)
          \<subseteq> fst ` set (pm_repoStats pm) \<union> {project_name p @ ''/'' @ n | n. True}"
        by (auto simp: dom_update)
      with Cons.IH [of ?pm] show ?thesis
        unfolding s by blast
    qed
  qed
qed

lemma analyzeRepos_distinct:
  "distinct (map fst (pm_repoStats pm)) \<Longrightarrow>
     distinct (map fst (pm_repoStats (fst (analyzeRepos E p d u rs pm))))"
  by (induction rs arbitrary: pm) (simp_all add: Let_def distinct_update split: sum.splits)

lemma analyzeProject_repoStats:
  "pm_repoStats (analyzeProject E p d u) = []
   \<or> (\<exists>rs. pm_repoStats (analyzeProject E p d u)
          = pm_repoStats (fst (analyzeRepos E p d u rs emptyProjectMetrics)))"
proof (cases "getRepositories E (project_id p)")
  case (Inl e)
  then show ?thesis by (simp add: analyzeProject_def emptyProjectMetrics_def)
next
  case (Inr repos)
  obtain pm e where r: "analyzeRepos E p d u repos emptyProjectMetrics = (pm, e)"
    by (cases "analyzeRepos E p d u repos emptyProjectMetrics")
  have "pm_repoStats (analyzeProject E p d u) = pm_repoStats pm"
    by (simp add: analyzeProject_def Inr r split: option.splits sum.splits)
  with r have "pm_repoStats (analyzeProject E p d u)
      = pm_repoStats (fst (analyzeRepos E p d u repos emptyProjectMetrics))"
    by simp
  then show ?thesis by blast
qed

lemma analyzeProject_keys:
  "fst ` set (pm_repoStats (analyzeProject E p d u)) \<subseteq> {project_name p @ ''/'' @ n | n. True}"
proof (cases "pm_repoStats (analyzeProject E p d u) = []")
  case True
  then show ?thesis by simp
next
  case False
  with analyzeProject_repoStats [of E p d u] obtain rs
    where rs: "pm_repoStats (analyzeProject E p d u)
          = pm_repoStats (fst (analyzeRepos E p d u rs emptyProjectMetrics))"
    by blast
  have e: "fst ` set (pm_repoStats emptyProjectMetrics) = {}"
    by (simp add: emptyProjectMetrics_def)
  from analyzeRepos_keys [of E p d u rs emptyProjectMetrics] show ?thesis
    unfolding rs e by simp
qed

lemma analyzeProject_distinct:
  "distinct (map fst (pm_repoStats (analyzeProject E p d u)))"
  using analyzeProject_repoStats [of E p d u] analyzeRepos_distinct [of emptyProjectMetrics E p d u]
  by (auto simp: emptyProjectMetrics_def)

lemma distinct_repoKeys:
  "distinct (map project_name ps) \<Longrightarrow> \<forall>p \<in> set ps. CHR ''/'' \<notin> set (project_name p) \<Longrightarrow>
     distinct (concat (map (\<lambda>p. map fst (pm_repoStats (analyzeProject E p d u))) ps))"
proof (induction ps)
  case Nil
  then show ?case by simp
next
  case (Cons q ps)
  let ?keys = "\<lambda>p. map fst (pm_repoStats (analyzeProject E p d u))"
  have "set (?keys q) \<inter> set (concat (map ?keys ps)) = {}"
  proof (rule ccontr)
    assume "set (?keys q) \<inter> set (concat (map ?keys ps)) \<noteq> {}"
    then obtain k where kq: "k \<in> set (?keys q)" and kc: "k \<in> set (concat (map ?keys ps))"
      by blast
    from kc obtain p where p: "p \<in> set ps" and kp: "k \<in> set (?keys p)"
      by auto
    from kq have "k \<in> fst ` set (pm_repoStats (analyzeProject E q d u))"
      by simp
    with analyzeProject_keys [of E q d u] obtain n where n: "k = project_name q @ ''/'' @ n"
      by blast
    from kp have "k \<in> fst ` set (pm_repoStats (analyzeProject E p d u))"
      by simp
    with analyzeProject_keys [of E p d u] obtain n' where n': "k = project_name p @ ''/'' @ n'"
      by blast
    from Cons.prems(2) p have sq: "CHR ''/'' \<notin> set (project_name q)"
      and sp: "CHR ''/'' \<notin> set (project_name p)"
      by simp_all
    have "project_name q = takeWhile (\<lambda>c. c \<noteq> CHR ''/'') k"
      unfolding n by (rule key_project [OF sq, symmetric])
    also have "\<dots> = project_name p"
      unfolding n' by (rule key_project [OF sp])
    finally have "project_name q \<in> set (map project_name ps)"
      using p by simp
    with Cons.prems(1) show False
      by simp
  qed
  moreover from Cons have "distinct (concat (map ?keys ps))"
    by simp
  moreover have "distinct (?keys q)"
    by (rule analyzeProject_distinct)
  ultimately show ?case
    by simp
qed

text \<open>
  The keys of the data model: when the projects carry pairwise different names without
  \<open>/\<close>, no repository key \<^verbatim>\<open>project/repo\<close> comes from two projects, whatever the remote end
  answers for their repositories.
\<close>

theorem repoKeys_distinct:
  "distinct (map project_name ps) \<and> (\<forall>p \<in> set ps. CHR ''/'' \<notin> set (project_name p)) \<longrightarrow>
     distinct (concat (map (\<lambda>p. map fst (pm_repoStats (analyzeProject E p d u))) ps))"
  using distinct_repoKeys [of ps E d u] by blast

theorem repoKeys_distinct_witness:
  "distinct (map project_name [proj1, projA])
   \<and> list_all (\<lambda>p. CHR ''/'' \<notin> set (project_name p)) [proj1, projA]
   \<and> distinct (concat (map (\<lambda>p. map fst (pm_repoStats (analyzeProject twoProjectsEnv p 30 None)))
        [proj1, projA]))
   \<and> concat (map (\<lambda>p. map fst (pm_repoStats (analyzeProject twoProjectsEnv p 30 None)))
        [proj1, projA]) = [''P1/A'', ''P1/B'', ''P/A'', ''P/B'']"
proof -
  have h: "distinct (map project_name [proj1, projA])"
    "\<forall>p \<in> set [proj1, projA]. CHR ''/'' \<notin> set (project_name p)"
    by code_simp+
  have v: "concat (map (\<lambda>p. map fst (pm_repoStats (analyzeProject twoProjectsEnv p 30 None)))
        [proj1, projA]) = [''P1/A'', ''P1/B'', ''P/A'', ''P/B'']"
    by code_simp
  from repoKeys_distinct [of "[proj1, projA]" twoProjectsEnv 30 None] h
  have r: "distinct (concat (map (\<lambda>p. map fst (pm_repoStats (analyzeProject twoProjectsEnv p 30 None)))
        [proj1, projA]))"
    by blast
  show ?thesis
    unfolding list_all_iff by (intro conjI) (rule h r v)+
qed

end
